theory Spec2Isabelle
  imports Main
begin

section \<open>The chatbot's conversation memory, embedded from chatbotpyopenai.py\<close>

text \<open>
  Python strings are modelled as \<open>string\<close>, restricted to code points below 256.
  Python's \<open>None\<close> where a ChatMessage is expected is the \<open>None\<close> of an option type.
  An exception is \<open>Inl\<close> of a sum; a call that never returns (it waits for the service
  for ever) is the \<open>None\<close> of the outer option. Console output (\<open>print\<close>) and
  \<open>time.sleep\<close> are not modelled.
\<close>

subsection \<open>Configuration constants\<close>

definition API_MODEL :: string where
  "API_MODEL = ''gpt-3.5-turbo''"

definition API_TOKEN_LIMIT :: nat where
  "API_TOKEN_LIMIT = 4096"

definition MAX_TOKENS :: nat where
  "MAX_TOKENS = 800"

definition SUMMARY_PROMPT :: string where
  "SUMMARY_PROMPT = ''Summarize this conversation so far.''"

definition TEMPERATURE :: nat where
  "TEMPERATURE = 1"

subsection \<open>json.dumps on the values the program serialises\<close>

text \<open>
  The program serialises dicts with string keys and string values, and lists of such
  dicts, with the default settings of \<open>json.dumps\<close>: separators \<open>", "\<close> and \<open>": "\<close>,
  \<open>ensure_ascii\<close> set. A dict is an association list in insertion order.
\<close>

type_synonym dict = "(string \<times> string) list"

definition hex_digit :: "nat \<Rightarrow> char" where
  "hex_digit n = ''0123456789abcdef'' ! (n mod 16)"

definition escape_char :: "char \<Rightarrow> string" where
  "escape_char ch =
     (let n = (of_char ch :: nat) in
      if n = 0x22 then [CHR 0x5C, CHR 0x22]
      else if n = 0x5C then [CHR 0x5C, CHR 0x5C]
      else if n = 0x0A then [CHR 0x5C, CHR ''n'']
      else if n = 0x0D then [CHR 0x5C, CHR ''r'']
      else if n = 0x09 then [CHR 0x5C, CHR ''t'']
      else if n = 0x08 then [CHR 0x5C, CHR ''b'']
      else if n = 0x0C then [CHR 0x5C, CHR ''f'']
      else if n < 0x20 \<or> 0x7E < n
        then [CHR 0x5C, CHR ''u'', CHR ''0'', CHR ''0'', hex_digit (n div 16), hex_digit n]
      else [ch])"

definition dumps_str :: "string \<Rightarrow> string" where
  "dumps_str s = [CHR 0x22] @ concat (map escape_char s) @ [CHR 0x22]"

fun join :: "string \<Rightarrow> string list \<Rightarrow> string" where
  "join sep [] = []"
| "join sep [x] = x"
| "join sep (x # y # ys) = x @ sep @ join sep (y # ys)"

definition dumps_dict :: "dict \<Rightarrow> string" where
  "dumps_dict d =
     ''{'' @ join '', '' (map (\<lambda>(k, v). dumps_str k @ '': '' @ dumps_str v) d) @ ''}''"

definition dumps_list :: "dict list \<Rightarrow> string" where
  "dumps_list ds = ''['' @ join '', '' (map dumps_dict ds) @ '']''"

subsection \<open>str.strip\<close>

definition isspace :: "char \<Rightarrow> bool" where
  "isspace ch =
     (let n = (of_char ch :: nat) in
      (9 \<le> n \<and> n \<le> 13) \<or> (28 \<le> n \<and> n \<le> 32) \<or> n = 133 \<or> n = 160)"

definition strip :: "string \<Rightarrow> string" where
  "strip s = rev (dropWhile isspace (rev (dropWhile isspace s)))"

subsection \<open>ChatMessage\<close>

text \<open>
  The tokenizer is the external library tiktoken: \<open>enc s\<close> stands for
  \<open>len(tiktoken.encoding_for_model(API_MODEL).encode(s))\<close> and is a parameter of
  everything that counts tokens. The reading of \<open>datetime.now()\<close> is an argument of
  the constructor.
\<close>

datatype error = ConnectionError | JSONDecodeError | SubscriptError | AttributeError

record ChatMessage =
  role :: string
  content :: string
  creation_time :: nat
  tokenlen :: nat

definition to_dict :: "ChatMessage \<Rightarrow> dict" where
  "to_dict m = [(''role'', role m), (''content'', content m)]"

definition to_json :: "ChatMessage \<Rightarrow> string" where
  "to_json m = dumps_dict [(''role'', role m), (''content'', content m)]"

definition get_tokenlen :: "(string \<Rightarrow> nat) \<Rightarrow> ChatMessage \<Rightarrow> nat" where
  "get_tokenlen enc m = enc (to_json m)"

definition ChatMessage_init :: "(string \<Rightarrow> nat) \<Rightarrow> string \<Rightarrow> string \<Rightarrow> nat \<Rightarrow> ChatMessage" where
  "ChatMessage_init enc r c now =
     (let self = \<lparr>role = r, content = c, creation_time = now, tokenlen = 0\<rparr>
      in self\<lparr>tokenlen := get_tokenlen enc self\<rparr>)"

definition get_content :: "ChatMessage \<Rightarrow> string" where
  "get_content m = content m"

definition get_role :: "ChatMessage \<Rightarrow> string" where
  "get_role m = role m"

text \<open>
  A list comprehension \<open>[m.f() for m in xs]\<close> over a list that may hold \<open>None\<close>:
  the method call on \<open>None\<close> raises AttributeError.
\<close>

fun for_each :: "(ChatMessage \<Rightarrow> 'a) \<Rightarrow> ChatMessage option list \<Rightarrow> error + 'a list" where
  "for_each f [] = Inr []"
| "for_each f (None # ms) = Inl AttributeError"
| "for_each f (Some m # ms) =
     (case for_each f ms of Inl e \<Rightarrow> Inl e | Inr ys \<Rightarrow> Inr (f m # ys))"

subsection \<open>Personality\<close>

record Personality =
  name :: string
  description :: string
  system_prompt :: string

definition get_personality_prompt :: "(string \<Rightarrow> nat) \<Rightarrow> Personality \<Rightarrow> nat \<Rightarrow> ChatMessage" where
  "get_personality_prompt enc p now = ChatMessage_init enc ''system'' (system_prompt p) now"

subsection \<open>The completion service and ChatCompletionApi.get_response\<close>

text \<open>
  The \<open>messages\<close> argument is whatever the caller passes: a list of dicts or a string.
  The world holds the replies that \<open>requests.post\<close> will receive, in order, and the log
  of the request bodies posted so far. A reply is a transport failure (the library
  raises) or a response with its status code, the shape of its body and the clock
  reading at its arrival. Of the body only the cases of the code matter:
  \<open>response.json()\<close> fails; the path \<open>['choices'][0]['message']['content']\<close> fails;
  the value there is not a string, so that \<open>.strip()\<close> fails; or it is a string.
  When no reply is left the call does not return.
\<close>

datatype message_arg = MsgList "dict list" | MsgStr string

record request =
  messages :: message_arg
  temperature :: nat
  max_tokens :: nat
  model :: string

datatype body = NotJson | NoCompletion | NonString | Completion string

record http_response =
  status_code :: int
  body :: body
  received :: nat

datatype reply = ConnectionFailed | Reply http_response

record world =
  pending :: "reply list"
  sent :: "request list"

type_synonym 'a outcome = "((error + 'a) \<times> world) option"

text \<open>
  The \<open>while True\<close> loop of get_response: each round posts the request and takes the
  next reply. After a successful \<open>.strip()\<close> the completion is a string, so the
  \<open>isinstance\<close> retry of the source cannot be taken.
\<close>

fun get_response_loop ::
  "(string \<Rightarrow> nat) \<Rightarrow> request \<Rightarrow> string \<Rightarrow> reply list \<Rightarrow> request list
     \<Rightarrow> ChatMessage option outcome" where
  "get_response_loop enc data r [] log = None"
| "get_response_loop enc data r (ConnectionFailed # rest) log =
     Some (Inl ConnectionError, \<lparr>pending = rest, sent = log @ [data]\<rparr>)"
| "get_response_loop enc data r (Reply response # rest) log =
     (let w' = \<lparr>pending = rest, sent = log @ [data]\<rparr> in
      if status_code response = 200 then
        (case body response of
           NotJson \<Rightarrow> Some (Inl JSONDecodeError, w')
         | NoCompletion \<Rightarrow> Some (Inl SubscriptError, w')
         | NonString \<Rightarrow> Some (Inl AttributeError, w')
         | Completion s \<Rightarrow>
             Some (Inr (Some (ChatMessage_init enc r (strip s) (received response))), w'))
      else if status_code response = 429 then
        get_response_loop enc data r rest (log @ [data])
      else
        (case body response of
           NotJson \<Rightarrow> Some (Inl JSONDecodeError, w')
         | _ \<Rightarrow> Some (Inr None, w')))"

definition get_response ::
  "(string \<Rightarrow> nat) \<Rightarrow> world \<Rightarrow> message_arg \<Rightarrow> string \<Rightarrow> ChatMessage option outcome" where
  "get_response enc w message_list r =
     (let data = \<lparr>messages = message_list, temperature = TEMPERATURE,
                  max_tokens = MAX_TOKENS, model = API_MODEL\<rparr>
      in get_response_loop enc data r (pending w) (sent w))"

subsection \<open>Context\<close>

record Context =
  context_list :: "ChatMessage option list"
  summary_message :: ChatMessage

definition Context_init :: "(string \<Rightarrow> nat) \<Rightarrow> Personality \<Rightarrow> nat \<Rightarrow> nat \<Rightarrow> Context" where
  "Context_init enc personality t1 t2 =
     \<lparr>context_list = [Some (get_personality_prompt enc personality t1)],
      summary_message = ChatMessage_init enc ''user'' SUMMARY_PROMPT t2\<rparr>"

definition get_context_tokenlen :: "(string \<Rightarrow> nat) \<Rightarrow> Context \<Rightarrow> error + nat" where
  "get_context_tokenlen enc c =
     (case for_each (get_tokenlen enc) (context_list c) of
        Inl e \<Rightarrow> Inl e
      | Inr ns \<Rightarrow> Inr (sum_list ns))"

text \<open>\<open>del xs[i:j]\<close> and \<open>xs.insert(i, x)\<close> for non-negative \<open>i\<close>, \<open>j\<close>.\<close>

definition del_slice :: "nat \<Rightarrow> nat \<Rightarrow> 'a list \<Rightarrow> 'a list" where
  "del_slice i j xs = take i xs @ drop (max i j) xs"

definition del_from :: "nat \<Rightarrow> 'a list \<Rightarrow> 'a list" where
  "del_from i xs = take i xs"

definition insert_at :: "nat \<Rightarrow> 'a \<Rightarrow> 'a list \<Rightarrow> 'a list" where
  "insert_at i x xs = take i xs @ x # drop i xs"

definition summarize_context ::
  "(string \<Rightarrow> nat) \<Rightarrow> world \<Rightarrow> Context \<Rightarrow> ChatMessage option outcome" where
  "summarize_context enc w c =
     (let summary_list = context_list c @ [Some (summary_message c)] in
      case for_each to_dict summary_list of
        Inl e \<Rightarrow> Some (Inl e, w)
      | Inr ds \<Rightarrow> get_response enc w (MsgStr (dumps_list ds)) ''user'')"

definition prune_context ::
  "(string \<Rightarrow> nat) \<Rightarrow> world \<Rightarrow> Context \<Rightarrow> ((error + unit) \<times> Context \<times> world) option" where
  "prune_context enc w c =
     (case summarize_context enc w c of
        None \<Rightarrow> None
      | Some (Inl e, w') \<Rightarrow> Some (Inl e, c, w')
      | Some (Inr context_summary, w') \<Rightarrow>
          Some (Inr (),
                c\<lparr>context_list := insert_at 1 context_summary (del_slice 1 9 (context_list c))\<rparr>,
                w'))"

definition reset_context :: "Context \<Rightarrow> Context" where
  "reset_context c = c\<lparr>context_list := del_from 1 (context_list c)\<rparr>"

text \<open>
  The \<open>while\<close> loop of get_prepared_context. Every round that returns has taken at
  least one reply from the world, which bounds the recursion; when the replies run out
  before the loop's condition fails, the call does not return.
\<close>

function get_prepared_loop ::
  "(string \<Rightarrow> nat) \<Rightarrow> world \<Rightarrow> ChatMessage \<Rightarrow> Context
     \<Rightarrow> ((error + unit) \<times> Context \<times> world) option" where
  "get_prepared_loop enc w prompt c =
     (case get_context_tokenlen enc c of
        Inl e \<Rightarrow> Some (Inl e, c, w)
      | Inr n \<Rightarrow>
          if n + get_tokenlen enc prompt + MAX_TOKENS + get_tokenlen enc (summary_message c)
               > API_TOKEN_LIMIT
          then (case prune_context enc w c of
                  None \<Rightarrow> None
                | Some (Inl e, c', w') \<Rightarrow> Some (Inl e, c', w')
                | Some (Inr u, c', w') \<Rightarrow> get_prepared_loop enc w' prompt c')
          else Some (Inr (), c, w))"
  by pat_completeness auto
termination
proof (relation "measure (\<lambda>(enc, w, prompt, c). length (pending w))")
  show "wf (measure (\<lambda>(enc, w, prompt, c). length (pending w)))"
    by simp
next
  fix enc :: "string \<Rightarrow> nat" and w :: world and prompt :: ChatMessage and c :: Context
    and n :: nat and x2 :: "(error + unit) \<times> Context \<times> world" and a b u c' w'
  assume pr: "prune_context enc w c = Some x2"
    and x2: "(a, b) = x2" "a = Inr u" "(c', w') = b"
  have shrink: "length (pending v) < length ps"
    if "get_response_loop enc data r ps log = Some (res, v)" for data r ps log res v
    using that
    by (induction enc data r ps log rule: get_response_loop.induct)
       (auto simp: Let_def split: if_splits body.splits)
  from pr x2 obtain s where "summarize_context enc w c = Some (Inr s, w')"
    by (auto simp: prune_context_def split: option.splits sum.splits prod.splits)
  then have "length (pending w') < length (pending w)"
    by (auto simp: summarize_context_def get_response_def Let_def
             split: sum.splits dest: shrink)
  then show "((enc, w', prompt, c'), enc, w, prompt, c)
               \<in> measure (\<lambda>(enc, w, prompt, c). length (pending w))"
    by simp
qed

definition get_prepared_context ::
  "(string \<Rightarrow> nat) \<Rightarrow> world \<Rightarrow> ChatMessage \<Rightarrow> Context
     \<Rightarrow> ((error + dict list) \<times> Context \<times> world) option" where
  "get_prepared_context enc w prompt c =
     (case get_prepared_loop enc w prompt c of
        None \<Rightarrow> None
      | Some (Inl e, c', w') \<Rightarrow> Some (Inl e, c', w')
      | Some (Inr u, c', w') \<Rightarrow>
          (let c'' = c'\<lparr>context_list := context_list c' @ [Some prompt]\<rparr> in
           case for_each to_dict (context_list c'') of
             Inl e \<Rightarrow> Some (Inl e, c'', w')
           | Inr prepared_context \<Rightarrow> Some (Inr prepared_context, c'', w')))"

subsection \<open>ChatManager\<close>

record ChatManager =
  context_obj :: Context
  history :: "ChatMessage option list"

definition ChatManager_init ::
  "(string \<Rightarrow> nat) \<Rightarrow> Personality \<Rightarrow> nat \<Rightarrow> nat \<Rightarrow> nat \<Rightarrow> ChatManager" where
  "ChatManager_init enc personality t1 t2 t3 =
     \<lparr>context_obj = Context_init enc personality t1 t2,
      history = [Some (get_personality_prompt enc personality t3)]\<rparr>"

definition get_history :: "ChatManager \<Rightarrow> error + dict list" where
  "get_history m = for_each to_dict (history m)"

definition reset_chat :: "ChatManager \<Rightarrow> ChatManager" where
  "reset_chat m =
     m\<lparr>context_obj := reset_context (context_obj m), history := del_from 1 (history m)\<rparr>"

definition update_history ::
  "ChatMessage \<Rightarrow> ChatMessage option \<Rightarrow> ChatManager \<Rightarrow> ChatManager" where
  "update_history prompt response m = m\<lparr>history := (history m @ [Some prompt]) @ [response]\<rparr>"

definition submit_prompt ::
  "(string \<Rightarrow> nat) \<Rightarrow> world \<Rightarrow> ChatMessage \<Rightarrow> ChatManager
     \<Rightarrow> ((error + ChatMessage option) \<times> ChatManager \<times> world) option" where
  "submit_prompt enc w prompt m =
     (case get_prepared_context enc w prompt (context_obj m) of
        None \<Rightarrow> None
      | Some (Inl e, c', w') \<Rightarrow> Some (Inl e, m\<lparr>context_obj := c'\<rparr>, w')
      | Some (Inr json_context, c', w') \<Rightarrow>
          (case get_response enc w' (MsgList json_context) ''assistant'' of
             None \<Rightarrow> None
           | Some (Inl e, w'') \<Rightarrow> Some (Inl e, m\<lparr>context_obj := c'\<rparr>, w'')
           | Some (Inr response, w'') \<Rightarrow>
               Some (Inr response, update_history prompt response (m\<lparr>context_obj := c'\<rparr>), w'')))"

subsection \<open>Sequences of calls\<close>

text \<open>
  A caller that makes a finite sequence of calls on one Context and goes on after a call
  that raised: what is kept is the object as the call left it. The result is \<open>None\<close>
  when one of the calls does not return.
\<close>

datatype context_call = Prepare ChatMessage | Prune | Reset

fun call_context ::
  "(string \<Rightarrow> nat) \<Rightarrow> world \<Rightarrow> context_call \<Rightarrow> Context \<Rightarrow> (Context \<times> world) option" where
  "call_context enc w (Prepare prompt) c =
     map_option snd (get_prepared_context enc w prompt c)"
| "call_context enc w Prune c = map_option snd (prune_context enc w c)"
| "call_context enc w Reset c = Some (reset_context c, w)"

fun run_context ::
  "(string \<Rightarrow> nat) \<Rightarrow> world \<Rightarrow> context_call list \<Rightarrow> Context \<Rightarrow> (Context \<times> world) option" where
  "run_context enc w [] c = Some (c, w)"
| "run_context enc w (x # xs) c =
     (case call_context enc w x c of
        None \<Rightarrow> None
      | Some (c', w') \<Rightarrow> run_context enc w' xs c')"

text \<open>
  A caller that makes a finite sequence of calls on one ChatManager, as \<open>main\<close> does:
  an exception is not caught, so the sequence ends at the first call that raises.
\<close>

datatype manager_call = Submit ChatMessage | ResetChat

fun call_manager ::
  "(string \<Rightarrow> nat) \<Rightarrow> world \<Rightarrow> manager_call \<Rightarrow> ChatManager
     \<Rightarrow> ((error + unit) \<times> ChatManager \<times> world) option" where
  "call_manager enc w (Submit prompt) m =
     (case submit_prompt enc w prompt m of
        None \<Rightarrow> None
      | Some (Inl e, m', w') \<Rightarrow> Some (Inl e, m', w')
      | Some (Inr response, m', w') \<Rightarrow> Some (Inr (), m', w'))"
| "call_manager enc w ResetChat m = Some (Inr (), reset_chat m, w)"

fun run_manager ::
  "(string \<Rightarrow> nat) \<Rightarrow> world \<Rightarrow> manager_call list \<Rightarrow> ChatManager
     \<Rightarrow> ((error + unit) \<times> ChatManager \<times> world) option" where
  "run_manager enc w [] m = Some (Inr (), m, w)"
| "run_manager enc w (x # xs) m =
     (case call_manager enc w x m of
        None \<Rightarrow> None
      | Some (Inl e, m', w') \<Rightarrow> Some (Inl e, m', w')
      | Some (Inr u, m', w') \<Rightarrow> run_manager enc w' xs m')"

subsection \<open>What history covers\<close>

text \<open>
  A message is logged when history holds a message with the same role and content.
  A ChatManager is covered when its context list starts with a message that history
  starts with, and every message of the context list from index 2 on is logged.
  A pruning summary of a list of replies is a message that get_response builds, with
  the role user, from a reply of the list that has status 200 and a completion text.
  A ChatManager and a world are tracked from an earlier world when the manager is
  covered, the pending replies come from the earlier world, the requests posted since
  extend the earlier log, and the entry at index 1 of the context list is logged or
  is a pruning summary obtained after a summarization request was posted.
\<close>

definition logged :: "ChatMessage option list \<Rightarrow> ChatMessage option \<Rightarrow> bool" where
  "logged hist x = (map_option to_dict x \<in> map_option to_dict ` set hist)"

definition covered :: "ChatManager \<Rightarrow> bool" where
  "covered m =
     (context_list (context_obj m) \<noteq> [] \<and>
      map (map_option to_dict) (take 1 (context_list (context_obj m)))
        = map (map_option to_dict) (take 1 (history m)) \<and>
      (\<forall>x\<in>set (drop 2 (context_list (context_obj m))). logged (history m) x))"

definition pruning_summary :: "(string \<Rightarrow> nat) \<Rightarrow> reply list \<Rightarrow> ChatMessage option \<Rightarrow> bool" where
  "pruning_summary enc ps x =
     (\<exists>q s. Reply q \<in> set ps \<and> status_code q = 200 \<and> body q = Completion s \<and>
            x = Some (ChatMessage_init enc ''user'' (strip s) (received q)))"

definition tracked :: "(string \<Rightarrow> nat) \<Rightarrow> world \<Rightarrow> ChatManager \<Rightarrow> world \<Rightarrow> bool" where
  "tracked enc w0 m w1 =
     (covered m \<and> set (pending w1) \<subseteq> set (pending w0) \<and>
      (\<exists>old. sent w1 = sent w0 @ old \<and>
         (\<forall>x\<in>set (take 1 (drop 1 (context_list (context_obj m)))).
            logged (history m) x \<or>
            (pruning_summary enc (pending w0) x \<and>
             (\<exists>req\<in>set old. \<exists>t. messages req = MsgStr t)))))"

subsection \<open>Concrete inputs\<close>

text \<open>
  The first default personality of the program, a token counter that gives 1700 tokens
  to the user message \<open>big\<close> and 10 to every other message, and responses of the
  completion service.
\<close>

definition helpful :: Personality where
  "helpful = \<lparr>name = ''Helpful'', description = ''A helpful assistant'',
               system_prompt = ''You are a helpful assistant.''\<rparr>"

definition enc0 :: "string \<Rightarrow> nat" where
  "enc0 s = (if s = dumps_dict [(''role'', ''user''), (''content'', ''big'')] then 1700 else 10)"

definition big :: "nat \<Rightarrow> ChatMessage" where
  "big now = ChatMessage_init enc0 ''user'' ''big'' now"

definition ok_reply :: "string \<Rightarrow> nat \<Rightarrow> reply" where
  "ok_reply s now = Reply \<lparr>status_code = 200, body = Completion s, received = now\<rparr>"

definition error_reply :: "int \<Rightarrow> nat \<Rightarrow> reply" where
  "error_reply code now = Reply \<lparr>status_code = code, body = NoCompletion, received = now\<rparr>"

definition summary_request :: "ChatMessage list \<Rightarrow> request" where
  "summary_request ms =
     \<lparr>messages = MsgStr (dumps_list (map to_dict ms)), temperature = 1,
      max_tokens = 800, model = ''gpt-3.5-turbo''\<rparr>"

definition turn_request :: "ChatMessage list \<Rightarrow> request" where
  "turn_request ms =
     \<lparr>messages = MsgList (map to_dict ms), temperature = 1,
      max_tokens = 800, model = ''gpt-3.5-turbo''\<rparr>"

definition pinned0 :: ChatMessage where
  "pinned0 = get_personality_prompt enc0 helpful 1"

definition summary0 :: ChatMessage where
  "summary0 = ChatMessage_init enc0 ''user'' SUMMARY_PROMPT 2"

definition ok7 :: ChatMessage where
  "ok7 = ChatMessage_init enc0 ''user'' ''ok'' 7"

definition one_big :: Context where
  "one_big = (Context_init enc0 helpful 1 2)\<lparr>context_list := [Some pinned0, Some (big 4)]\<rparr>"

definition one_reply :: world where
  "one_reply = \<lparr>pending = [ok_reply '' ok '' 7], sent = []\<rparr>"

definition one_big_prepared :: Context where
  "one_big_prepared = one_big\<lparr>context_list := [Some pinned0, Some ok7, Some (big 5)]\<rparr>"

definition one_reply_taken :: world where
  "one_reply_taken = \<lparr>pending = [], sent = [summary_request [pinned0, big 4, summary0]]\<rparr>"

definition retry_then_reply :: world where
  "retry_then_reply = \<lparr>pending = [error_reply 429 6, ok_reply '' ok '' 7], sent = []\<rparr>"

definition fresh0 :: Context where
  "fresh0 = Context_init enc0 helpful 1 2"

definition two_replies :: world where
  "two_replies = \<lparr>pending = [ok_reply '' ok '' 7, error_reply 500 8], sent = []\<rparr>"

definition two_replies_taken :: world where
  "two_replies_taken =
     \<lparr>pending = [],
      sent = [summary_request [pinned0, big 4, summary0],
              summary_request [pinned0, ok7, big 5, summary0]]\<rparr>"

definition failing :: world where
  "failing = \<lparr>pending = [error_reply 500 8], sent = []\<rparr>"

definition hi :: "nat \<Rightarrow> ChatMessage" where
  "hi now = ChatMessage_init enc0 ''user'' ''hi'' now"

definition two_small :: Context where
  "two_small = fresh0\<lparr>context_list := [Some pinned0, Some (hi 4), Some (hi 5)]\<rparr>"

definition manager0 :: ChatManager where
  "manager0 = ChatManager_init enc0 helpful 1 2 3"

definition pinned3 :: ChatMessage where
  "pinned3 = get_personality_prompt enc0 helpful 3"

definition hello6 :: ChatMessage where
  "hello6 = ChatMessage_init enc0 ''assistant'' ''hello'' 6"

definition manager_one_big :: ChatManager where
  "manager_one_big =
     \<lparr>context_obj = one_big, history = [Some pinned3, Some (big 4), Some hello6]\<rparr>"

definition yes9 :: ChatMessage where
  "yes9 = ChatMessage_init enc0 ''assistant'' ''yes'' 9"

definition three_replies :: world where
  "three_replies =
     \<lparr>pending = [ok_reply ''hello'' 6, ok_reply '' ok '' 7, ok_reply ''yes'' 9], sent = []\<rparr>"

definition three_replies_taken :: world where
  "three_replies_taken =
     \<lparr>pending = [],
      sent = [turn_request [pinned0, big 4], summary_request [pinned0, big 4, summary0],
              turn_request [pinned0, ok7, big 5]]\<rparr>"

definition manager_after_two :: ChatManager where
  "manager_after_two =
     \<lparr>context_obj = one_big_prepared,
      history = [Some pinned3, Some (big 4), Some hello6, Some (big 5), Some yes9]\<rparr>"

definition no_replies :: world where
  "no_replies = \<lparr>pending = [], sent = []\<rparr>"

definition long_chat :: Context where
  "long_chat =
     fresh0\<lparr>context_list :=
       [Some pinned0, Some (big 4), Some (hi 5), Some (hi 6), Some (hi 7), Some (hi 8),
        Some (hi 9), Some (hi 10), Some (hi 11), Some (hi 12), Some (hi 13)]\<rparr>"

definition ok20 :: ChatMessage where
  "ok20 = ChatMessage_init enc0 ''user'' ''ok'' 20"

definition late_reply :: world where
  "late_reply = \<lparr>pending = [ok_reply '' ok '' 20], sent = []\<rparr>"

definition late_reply_taken :: world where
  "late_reply_taken =
     \<lparr>pending = [],
      sent = [summary_request [pinned0, big 4, hi 5, hi 6, hi 7, hi 8, hi 9, hi 10, hi 11,
                               hi 12, hi 13, summary0]]\<rparr>"

definition transport_failure :: world where
  "transport_failure = \<lparr>pending = [ConnectionFailed], sent = []\<rparr>"

definition html_error :: world where
  "html_error =
     \<lparr>pending = [Reply \<lparr>status_code = 502, body = NotJson, received = 8\<rparr>], sent = []\<rparr>"

definition manager_failed :: ChatManager where
  "manager_failed =
     \<lparr>context_obj = fresh0\<lparr>context_list := [Some pinned0, Some (big 5)]\<rparr>,
      history = [Some pinned3, Some (big 5), None]\<rparr>"

definition hello_reply :: world where
  "hello_reply = \<lparr>pending = [ok_reply ''hello'' 6], sent = []\<rparr>"

definition manager_after_one :: ChatManager where
  "manager_after_one =
     \<lparr>context_obj = fresh0\<lparr>context_list := [Some pinned0, Some (hi 4)]\<rparr>,
      history = [Some pinned3, Some (hi 4), Some hello6]\<rparr>"

section \<open>Properties\<close>

subsection \<open>Auxiliary facts\<close>

declare get_prepared_loop.simps [simp del]

lemma for_each_Inr:
  "for_each f xs = Inr ys \<Longrightarrow> \<exists>ms. xs = map Some ms \<and> ys = map f ms"
proof (induction f xs arbitrary: ys rule: for_each.induct)
  case (1 f)
  then show ?case by simp
next
  case (2 f ms)
  then show ?case by simp
next
  case (3 f m ms)
  from "3.prems" obtain zs where zs: "for_each f ms = Inr zs" and ys: "ys = f m # zs"
    by (auto split: sum.splits)
  from "3.IH" [OF zs] obtain ns where "ms = map Some ns" "zs = map f ns"
    by blast
  with ys have "Some m # ms = map Some (m # ns) \<and> ys = map f (m # ns)"
    by simp
  then show ?case by (rule exI)
qed

lemma for_each_Some: "for_each f (map Some ms) = Inr (map f ms)"
  by (induction ms) auto

lemma for_each_Inl: "for_each f xs = Inl e \<Longrightarrow> e = AttributeError \<and> None \<in> set xs"
  by (induction f xs rule: for_each.induct) (auto split: sum.splits)

lemma for_each_None: "None \<in> set xs \<Longrightarrow> for_each f xs = Inl AttributeError"
  by (induction f xs rule: for_each.induct) (auto split: sum.splits)

lemma get_context_tokenlen_Inr:
  "get_context_tokenlen enc c = Inr n \<Longrightarrow>
     \<exists>ms. context_list c = map Some ms \<and> n = sum_list (map (get_tokenlen enc) ms)"
  by (auto simp: get_context_tokenlen_def split: sum.splits dest: for_each_Inr)

lemma get_prepared_loop_Inr:
  "get_prepared_loop enc w prompt c = Some (Inr u, c', w') \<Longrightarrow>
     \<exists>n. get_context_tokenlen enc c' = Inr n \<and>
         n + get_tokenlen enc prompt + MAX_TOKENS + get_tokenlen enc (summary_message c')
           \<le> API_TOKEN_LIMIT"
proof (induction enc w prompt c rule: get_prepared_loop.induct)
  case (1 enc w prompt c)
  show ?case
  proof (cases "get_context_tokenlen enc c")
    case (Inl e)
    with "1.prems" show ?thesis
      by (simp add: get_prepared_loop.simps [of enc w prompt c])
  next
    case (Inr n)
    show ?thesis
    proof (cases "n + get_tokenlen enc prompt + MAX_TOKENS
                    + get_tokenlen enc (summary_message c) > API_TOKEN_LIMIT")
      case True
      with Inr "1.prems" obtain v c1 w1 where
        pr: "prune_context enc w c = Some (Inr v, c1, w1)"
        and rec: "get_prepared_loop enc w1 prompt c1 = Some (Inr u, c', w')"
        by (auto simp: get_prepared_loop.simps [of enc w prompt c]
                 split: option.splits sum.splits)
      from "1.IH" [OF Inr True pr refl refl refl rec] show ?thesis .
    next
      case False
      with Inr "1.prems" have "c' = c"
        by (simp add: get_prepared_loop.simps [of enc w prompt c])
      with Inr False show ?thesis by auto
    qed
  qed
qed

lemma rev_dropWhile_takeWhile:
  "xs = rev (dropWhile P (rev xs)) @ rev (takeWhile P (rev xs))"
proof -
  have "rev (rev xs) = rev (takeWhile P (rev xs) @ dropWhile P (rev xs))"
    by (simp only: takeWhile_dropWhile_id)
  then show ?thesis
    by (simp only: rev_rev_ident rev_append)
qed

lemma strip_decomp:
  "\<exists>a b. s = a @ strip s @ b \<and> (\<forall>ch\<in>set a. isspace ch) \<and> (\<forall>ch\<in>set b. isspace ch)"
proof -
  define t where "t = dropWhile isspace s"
  define a where "a = takeWhile isspace s"
  define b where "b = rev (takeWhile isspace (rev t))"
  have t: "t = strip s @ b"
    unfolding strip_def b_def t_def by (rule rev_dropWhile_takeWhile)
  have "s = a @ t"
    by (simp add: a_def t_def)
  with t have "s = a @ strip s @ b"
    by simp
  moreover have "\<forall>ch\<in>set a. isspace ch"
    unfolding a_def by (auto dest: set_takeWhileD)
  moreover have "\<forall>ch\<in>set b. isspace ch"
    unfolding b_def by (auto dest: set_takeWhileD)
  ultimately show ?thesis by blast
qed

lemma strip_ends:
  assumes "strip s \<noteq> []"
  shows "\<not> isspace (hd (strip s)) \<and> \<not> isspace (last (strip s))"
proof -
  define t where "t = dropWhile isspace s"
  have ne: "dropWhile isspace (rev t) \<noteq> []"
    using assms by (simp add: strip_def t_def)
  have "last (strip s) = hd (dropWhile isspace (rev t))"
    using ne by (simp add: strip_def t_def last_rev)
  then have l: "\<not> isspace (last (strip s))"
    using ne hd_dropWhile [of isspace "rev t"] by simp
  have tne: "t \<noteq> []"
    using ne by auto
  then have ht: "\<not> isspace (hd t)"
    unfolding t_def by (rule hd_dropWhile)
  have "t = strip s @ rev (takeWhile isspace (rev t))"
    unfolding strip_def t_def by (rule rev_dropWhile_takeWhile)
  then have "hd t = hd (strip s)"
    using assms by (metis hd_append2)
  with ht l show ?thesis by simp
qed

lemma get_response_loop_message:
  "get_response_loop enc data r ps log = Some (Inr (Some m), w') \<Longrightarrow>
     role m = r \<and>
     (\<exists>retries response s.
        ps = retries @ Reply response # pending w' \<and>
        (\<forall>x\<in>set retries. \<exists>q. x = Reply q \<and> status_code q = 429) \<and>
        status_code response = 200 \<and> body response = Completion s \<and>
        content m = strip s)"
proof (induction enc data r ps log rule: get_response_loop.induct)
  case (1 enc data r log)
  then show ?case by simp
next
  case (2 enc data r rest log)
  then show ?case by simp
next
  case (3 enc data r response rest log)
  show ?case
  proof (cases "status_code response = 200")
    case True
    with "3.prems" obtain s where s: "body response = Completion s"
      and m: "m = ChatMessage_init enc r (strip s) (received response)"
      and w': "pending w' = rest"
      by (auto simp: Let_def split: body.splits)
    have "Reply response # rest = [] @ Reply response # pending w'"
      using w' by simp
    with True s m show ?thesis
      by (fastforce simp: ChatMessage_init_def Let_def)
  next
    case False
    with "3.prems" have code: "status_code response = 429"
      and rec: "get_response_loop enc data r rest (log @ [data]) = Some (Inr (Some m), w')"
      by (auto simp: Let_def split: if_splits body.splits)
    from "3.IH" [OF refl False code rec] obtain retries q s where
      r: "role m = r" "rest = retries @ Reply q # pending w'"
         "\<forall>x\<in>set retries. \<exists>q. x = Reply q \<and> status_code q = 429"
         "status_code q = 200" "body q = Completion s" "content m = strip s"
      by blast
    have "Reply response # rest = (Reply response # retries) @ Reply q # pending w'"
      using r by simp
    moreover have "\<forall>x\<in>set (Reply response # retries). \<exists>q. x = Reply q \<and> status_code q = 429"
      using r code by simp
    ultimately show ?thesis using r by blast
  qed
qed

lemma pruned_list:
  "insert_at (Suc 0) x (del_slice (Suc 0) 9 (p # tail)) = p # x # drop 8 tail"
  by (simp add: insert_at_def del_slice_def)

lemma pruned_list_Nil:
  "insert_at (Suc 0) x (del_slice (Suc 0) 9 []) = [x]"
  by (simp add: insert_at_def del_slice_def)

lemma prune_context_keeps_first:
  assumes "prune_context enc w c = Some (r, c', w')" and "context_list c \<noteq> []"
  shows "take 1 (context_list c') = take 1 (context_list c) \<and>
         summary_message c' = summary_message c"
proof -
  from assms(2) obtain p tail where "context_list c = p # tail"
    by (cases "context_list c") auto
  with assms(1) show ?thesis
    by (auto simp: prune_context_def pruned_list split: option.splits sum.splits)
qed

lemma get_prepared_loop_keeps_first:
  "get_prepared_loop enc w prompt c = Some (r, c', w') \<Longrightarrow> context_list c \<noteq> [] \<Longrightarrow>
     take 1 (context_list c') = take 1 (context_list c) \<and>
     summary_message c' = summary_message c"
proof (induction enc w prompt c rule: get_prepared_loop.induct)
  case (1 enc w prompt c)
  show ?case
  proof (cases "get_context_tokenlen enc c")
    case (Inl e)
    with "1.prems" show ?thesis
      by (simp add: get_prepared_loop.simps [of enc w prompt c])
  next
    case (Inr n)
    show ?thesis
    proof (cases "n + get_tokenlen enc prompt + MAX_TOKENS
                    + get_tokenlen enc (summary_message c) > API_TOKEN_LIMIT")
      case False
      with Inr "1.prems" show ?thesis
        by (simp add: get_prepared_loop.simps [of enc w prompt c])
    next
      case True
      from True Inr "1.prems"(1) obtain r1 c1 w1 where
        pr: "prune_context enc w c = Some (r1, c1, w1)"
        by (auto simp: get_prepared_loop.simps [of enc w prompt c] split: option.splits)
      from prune_context_keeps_first [OF pr "1.prems"(2)]
      have keep: "take 1 (context_list c1) = take 1 (context_list c)"
        "summary_message c1 = summary_message c"
        by simp_all
      show ?thesis
      proof (cases r1)
        case (Inl e)
        with True Inr "1.prems"(1) pr have "c' = c1"
          by (simp add: get_prepared_loop.simps [of enc w prompt c])
        with keep show ?thesis by simp
      next
        case (Inr u)
        with True \<open>get_context_tokenlen enc c = Inr n\<close> "1.prems"(1) pr
        have rec: "get_prepared_loop enc w1 prompt c1 = Some (r, c', w')"
          by (simp add: get_prepared_loop.simps [of enc w prompt c])
        have ne: "context_list c1 \<noteq> []"
          using keep(1) "1.prems"(2) by (cases "context_list c1") auto
        from "1.IH" [OF \<open>get_context_tokenlen enc c = Inr n\<close> True
                        pr [unfolded Inr] refl refl refl rec ne] keep
        show ?thesis by simp
      qed
    qed
  qed
qed

lemma get_prepared_context_keeps_first:
  assumes "get_prepared_context enc w prompt c = Some (r, c', w')" and "context_list c \<noteq> []"
  shows "take 1 (context_list c') = take 1 (context_list c) \<and>
         summary_message c' = summary_message c"
proof -
  from assms(1) obtain r1 c1 where
    loop: "get_prepared_loop enc w prompt c = Some (r1, c1, w')"
    and c': "c' = c1 \<or> c' = c1\<lparr>context_list := context_list c1 @ [Some prompt]\<rparr>"
    by (auto simp: get_prepared_context_def Let_def split: option.splits sum.splits)
  from get_prepared_loop_keeps_first [OF loop assms(2)]
  have keep: "take 1 (context_list c1) = take 1 (context_list c)"
    "summary_message c1 = summary_message c"
    by simp_all
  then have "context_list c1 \<noteq> []"
    using assms(2) by (cases "context_list c1") auto
  with keep c' show ?thesis
    by (cases "context_list c1") auto
qed

lemma call_context_keeps_first:
  assumes "call_context enc w x c = Some (c', w')" and "context_list c \<noteq> []"
  shows "take 1 (context_list c') = take 1 (context_list c)"
proof (cases x)
  case (Prepare prompt)
  with assms(1) obtain r where "get_prepared_context enc w prompt c = Some (r, c', w')"
    by auto
  from get_prepared_context_keeps_first [OF this assms(2)] show ?thesis by simp
next
  case Prune
  with assms(1) obtain r where "prune_context enc w c = Some (r, c', w')"
    by auto
  from prune_context_keeps_first [OF this assms(2)] show ?thesis by simp
next
  case Reset
  with assms(1) show ?thesis
    by (auto simp: reset_context_def del_from_def)
qed

lemma run_context_keeps_first:
  "run_context enc w calls c = Some (c', w') \<Longrightarrow> context_list c \<noteq> [] \<Longrightarrow>
     take 1 (context_list c') = take 1 (context_list c)"
proof (induction calls arbitrary: w c)
  case Nil
  then show ?case by simp
next
  case (Cons x calls)
  from Cons.prems(1) obtain c1 w1 where
    step: "call_context enc w x c = Some (c1, w1)"
    and rest: "run_context enc w1 calls c1 = Some (c', w')"
    by (auto split: option.splits)
  from call_context_keeps_first [OF step Cons.prems(2)]
  have keep: "take 1 (context_list c1) = take 1 (context_list c)" .
  then have "context_list c1 \<noteq> []"
    using Cons.prems(2) by (cases "context_list c1") auto
  from Cons.IH [OF rest this] keep show ?case by simp
qed

lemma get_response_loop_retries:
  "\<forall>x\<in>set retries. \<exists>q. x = Reply q \<and> status_code q = 429 \<Longrightarrow>
     get_response_loop enc data r (retries @ rest) log
       = get_response_loop enc data r rest (log @ replicate (length retries) data)"
proof (induction retries arbitrary: log)
  case Nil
  then show ?case by simp
next
  case (Cons x retries)
  from Cons.prems obtain q where q: "x = Reply q" "status_code q = 429"
    by auto
  from Cons.prems have "\<forall>x\<in>set retries. \<exists>q. x = Reply q \<and> status_code q = 429"
    by simp
  from Cons.IH [OF this, of "log @ [data]"] q show ?case
    by (simp add: replicate_app_Cons_same)
qed

lemma get_response_service_error:
  assumes "pending w = retries @ Reply response # rest"
    and "\<forall>x\<in>set retries. \<exists>q. x = Reply q \<and> status_code q = 429"
    and "status_code response \<noteq> 200" and "status_code response \<noteq> 429"
    and "body response \<noteq> NotJson"
  shows "\<exists>w'. get_response enc w message_list r = Some (Inr None, w') \<and> pending w' = rest"
proof -
  define data where "data = \<lparr>messages = message_list, temperature = TEMPERATURE,
                              max_tokens = MAX_TOKENS, model = API_MODEL\<rparr>"
  define log where "log = sent w @ replicate (length retries) data"
  have "get_response enc w message_list r
          = get_response_loop enc data r (retries @ Reply response # rest) (sent w)"
    by (simp only: get_response_def Let_def data_def assms(1))
  also have "\<dots> = get_response_loop enc data r (Reply response # rest) log"
    unfolding log_def by (rule get_response_loop_retries [OF assms(2)])
  also have "\<dots> = Some (Inr None, \<lparr>pending = rest, sent = log @ [data]\<rparr>)"
    using assms(3-5) by (cases "body response") (simp_all add: Let_def)
  finally show ?thesis
    by simp
qed

lemma prune_context_service_error:
  assumes "pending w = retries @ Reply response # rest"
    and "\<forall>x\<in>set retries. \<exists>q. x = Reply q \<and> status_code q = 429"
    and "status_code response \<noteq> 200" and "status_code response \<noteq> 429"
    and "body response \<noteq> NotJson"
    and "context_list c = map Some ms"
  shows "\<exists>w'. summarize_context enc w c = Some (Inr None, w') \<and> pending w' = rest \<and>
           prune_context enc w c
             = Some (Inr (),
                     c\<lparr>context_list := take 1 (context_list c) @ None # drop 9 (context_list c)\<rparr>,
                     w')"
proof -
  have "for_each to_dict (context_list c @ [Some (summary_message c)])
          = Inr (map to_dict (ms @ [summary_message c]))"
    using for_each_Some [of to_dict "ms @ [summary_message c]"] assms(6) by simp
  moreover from get_response_service_error [OF assms(1-5)] obtain w' where
    "get_response enc w (MsgStr (dumps_list (map to_dict (ms @ [summary_message c])))) ''user''
       = Some (Inr None, w')" "pending w' = rest"
    by blast
  ultimately have "summarize_context enc w c = Some (Inr None, w')"
    by (simp add: summarize_context_def Let_def)
  moreover have "insert_at 1 None (del_slice 1 9 (context_list c))
                   = take 1 (context_list c) @ None # drop 9 (context_list c)"
    by (cases "context_list c") (simp_all add: insert_at_def del_slice_def)
  ultimately show ?thesis
    using \<open>pending w' = rest\<close> by (simp add: prune_context_def)
qed

lemma get_prepared_context_on_service_error:
  assumes "pending w = retries @ Reply response # rest"
    and "\<forall>x\<in>set retries. \<exists>q. x = Reply q \<and> status_code q = 429"
    and "status_code response \<noteq> 200" and "status_code response \<noteq> 429"
    and "body response \<noteq> NotJson"
    and "get_context_tokenlen enc c = Inr n"
    and "API_TOKEN_LIMIT
           < n + get_tokenlen enc prompt + MAX_TOKENS + get_tokenlen enc (summary_message c)"
  shows "\<exists>w'. get_prepared_context enc w prompt c
           = Some (Inl AttributeError,
                   c\<lparr>context_list := take 1 (context_list c) @ None # drop 9 (context_list c)\<rparr>,
                   w') \<and> pending w' = rest"
proof -
  define c1 where
    "c1 = c\<lparr>context_list := take 1 (context_list c) @ None # drop 9 (context_list c)\<rparr>"
  from get_context_tokenlen_Inr [OF assms(6)] obtain ms where "context_list c = map Some ms"
    by blast
  from prune_context_service_error [OF assms(1-5) this, of enc] obtain w' where
    pr: "prune_context enc w c = Some (Inr (), c1, w')" and w': "pending w' = rest"
    unfolding c1_def by blast
  have "for_each (get_tokenlen enc) (context_list c1) = Inl AttributeError"
    by (rule for_each_None) (simp add: c1_def)
  then have "get_context_tokenlen enc c1 = Inl AttributeError"
    by (simp add: get_context_tokenlen_def)
  then have "get_prepared_loop enc w' prompt c1 = Some (Inl AttributeError, c1, w')"
    by (simp add: get_prepared_loop.simps [of enc w' prompt c1])
  with pr assms(6,7) have "get_prepared_loop enc w prompt c = Some (Inl AttributeError, c1, w')"
    by (simp add: get_prepared_loop.simps [of enc w prompt c])
  then have "get_prepared_context enc w prompt c = Some (Inl AttributeError, c1, w')"
    by (simp add: get_prepared_context_def)
  with w' show ?thesis
    unfolding c1_def by blast
qed

lemma prune_context_drops:
  assumes "prune_context enc w c = Some (r, c', w')"
  shows "set (drop 2 (context_list c')) \<subseteq> set (drop 2 (context_list c))"
proof (cases "context_list c")
  case Nil
  with assms show ?thesis
    by (auto simp: prune_context_def pruned_list_Nil split: option.splits sum.splits)
next
  case (Cons p tail)
  have "set (drop 8 tail) \<subseteq> set (drop 1 tail)"
    by (rule set_drop_subset_set_drop) simp
  then have "x \<in> set (drop (Suc 0) tail)" if "x \<in> set (drop 8 tail)" for x
    using that by auto
  with Cons assms show ?thesis
    by (auto simp: prune_context_def pruned_list split: option.splits sum.splits)
qed

lemma get_prepared_loop_drops:
  "get_prepared_loop enc w prompt c = Some (r, c', w') \<Longrightarrow>
     set (drop 2 (context_list c')) \<subseteq> set (drop 2 (context_list c))"
proof (induction enc w prompt c rule: get_prepared_loop.induct)
  case (1 enc w prompt c)
  show ?case
  proof (cases "get_context_tokenlen enc c")
    case (Inl e)
    with "1.prems" show ?thesis
      by (simp add: get_prepared_loop.simps [of enc w prompt c])
  next
    case (Inr n)
    show ?thesis
    proof (cases "n + get_tokenlen enc prompt + MAX_TOKENS
                    + get_tokenlen enc (summary_message c) > API_TOKEN_LIMIT")
      case False
      with Inr "1.prems" show ?thesis
        by (simp add: get_prepared_loop.simps [of enc w prompt c])
    next
      case True
      from True Inr "1.prems"(1) obtain r1 c1 w1 where
        pr: "prune_context enc w c = Some (r1, c1, w1)"
        by (auto simp: get_prepared_loop.simps [of enc w prompt c] split: option.splits)
      note sub = prune_context_drops [OF pr]
      show ?thesis
      proof (cases r1)
        case (Inl e)
        with True Inr "1.prems"(1) pr have "c' = c1"
          by (simp add: get_prepared_loop.simps [of enc w prompt c])
        with sub show ?thesis by simp
      next
        case (Inr u)
        with True \<open>get_context_tokenlen enc c = Inr n\<close> "1.prems"(1) pr
        have rec: "get_prepared_loop enc w1 prompt c1 = Some (r, c', w')"
          by (simp add: get_prepared_loop.simps [of enc w prompt c])
        from "1.IH" [OF \<open>get_context_tokenlen enc c = Inr n\<close> True
                        pr [unfolded Inr] refl refl refl rec] sub
        show ?thesis by blast
      qed
    qed
  qed
qed

lemma covered_reset_chat: "covered m \<Longrightarrow> covered (reset_chat m)"
  by (auto simp: covered_def reset_chat_def reset_context_def del_from_def)

lemma covered_submit_prompt:
  assumes "covered m" and "submit_prompt enc w prompt m = Some (Inr response, m', w')"
  shows "covered m'"
proof -
  let ?cl = "context_list (context_obj m)"
  from assms(2) obtain js c1 w1 where
    prep: "get_prepared_context enc w prompt (context_obj m) = Some (Inr js, c1, w1)"
    and m': "m' = update_history prompt response (m\<lparr>context_obj := c1\<rparr>)"
    by (auto simp: submit_prompt_def split: option.splits sum.splits)
  from prep obtain u c0 where
    loop: "get_prepared_loop enc w prompt (context_obj m) = Some (Inr u, c0, w1)"
    and c1: "c1 = c0\<lparr>context_list := context_list c0 @ [Some prompt]\<rparr>"
    by (auto simp: get_prepared_context_def Let_def split: option.splits sum.splits)
  from assms(1) have ne: "?cl \<noteq> []"
    and first: "map (map_option to_dict) (take 1 ?cl) = map (map_option to_dict) (take 1 (history m))"
    and rest: "\<forall>x\<in>set (drop 2 ?cl). logged (history m) x"
    by (simp_all add: covered_def)
  from get_prepared_loop_keeps_first [OF loop ne]
  have keep: "take 1 (context_list c0) = take 1 ?cl" by simp
  then have ne0: "context_list c0 \<noteq> []"
    using ne by (cases "context_list c0") auto
  from first ne have hne: "history m \<noteq> []"
    by (cases "history m"; cases ?cl) auto
  have hist: "history m' = history m @ [Some prompt, response]"
    and cl': "context_list (context_obj m') = context_list c0 @ [Some prompt]"
    using m' c1 by (simp_all add: update_history_def)
  have 1: "context_list (context_obj m') \<noteq> []"
    using cl' by simp
  have 2: "map (map_option to_dict) (take 1 (context_list (context_obj m')))
             = map (map_option to_dict) (take 1 (history m'))"
    using cl' hist ne0 hne keep first by (cases "context_list c0"; cases "history m") auto
  have sub: "set (drop 2 (context_list c0)) \<subseteq> set (drop 2 ?cl)"
    by (rule get_prepared_loop_drops [OF loop])
  have 3: "logged (history m') x" if "x \<in> set (drop 2 (context_list (context_obj m')))" for x
  proof -
    from that cl' have "x \<in> set (drop 2 (context_list c0)) \<or> x = Some prompt"
      by (auto dest: in_set_dropD)
    then show ?thesis
    proof
      assume "x \<in> set (drop 2 (context_list c0))"
      with sub rest have "logged (history m) x" by blast
      then show ?thesis
        by (auto simp: logged_def hist)
    next
      assume "x = Some prompt"
      then show ?thesis
        by (simp add: logged_def hist)
    qed
  qed
  from 1 2 3 show ?thesis
    by (simp add: covered_def)
qed

lemma covered_run_manager:
  "run_manager enc w calls m = Some (Inr u, m', w') \<Longrightarrow> covered m \<Longrightarrow> covered m'"
proof (induction calls arbitrary: w m)
  case Nil
  then show ?case by simp
next
  case (Cons x calls)
  from Cons.prems(1) obtain v m1 w1 where
    step: "call_manager enc w x m = Some (Inr v, m1, w1)"
    and rest: "run_manager enc w1 calls m1 = Some (Inr u, m', w')"
    by (auto split: option.splits sum.splits)
  have "covered m1"
  proof (cases x)
    case (Submit prompt)
    with step obtain response where "submit_prompt enc w prompt m = Some (Inr response, m1, w1)"
      by (auto split: option.splits sum.splits)
    from covered_submit_prompt [OF Cons.prems(2) this] show ?thesis .
  next
    case ResetChat
    with step Cons.prems(2) show ?thesis
      by (auto simp: covered_reset_chat)
  qed
  from Cons.IH [OF rest this] show ?case .
qed

lemma covered_init: "covered (ChatManager_init enc personality t1 t2 t3)"
  by (simp add: covered_def ChatManager_init_def Context_init_def to_dict_def
                get_personality_prompt_def ChatMessage_init_def Let_def)

lemma get_prepared_loop_unfold:
  assumes "get_prepared_loop enc w prompt c = Some (Inr u, c', w')"
  shows "\<exists>n. get_context_tokenlen enc c = Inr n \<and>
           (if API_TOKEN_LIMIT
                 < n + get_tokenlen enc prompt + MAX_TOKENS + get_tokenlen enc (summary_message c)
            then \<exists>s w1.
                   summarize_context enc w c = Some (Inr (Some s), w1) \<and>
                   prune_context enc w c
                     = Some (Inr (),
                             c\<lparr>context_list :=
                                 take 1 (context_list c) @ Some s # drop 9 (context_list c)\<rparr>,
                             w1) \<and>
                   get_prepared_loop enc w1 prompt
                       (c\<lparr>context_list :=
                           take 1 (context_list c) @ Some s # drop 9 (context_list c)\<rparr>)
                     = Some (Inr u, c', w')
            else c' = c \<and> w' = w)"
proof -
  from assms obtain n where n: "get_context_tokenlen enc c = Inr n"
    by (cases "get_context_tokenlen enc c")
       (auto simp: get_prepared_loop.simps [of enc w prompt c])
  show ?thesis
  proof (cases "API_TOKEN_LIMIT
                 < n + get_tokenlen enc prompt + MAX_TOKENS + get_tokenlen enc (summary_message c)")
    case False
    with n assms show ?thesis
      by (simp add: get_prepared_loop.simps [of enc w prompt c])
  next
    case True
    with n assms obtain v c1 w1 where
      pr: "prune_context enc w c = Some (Inr v, c1, w1)"
      and rec: "get_prepared_loop enc w1 prompt c1 = Some (Inr u, c', w')"
      by (auto simp: get_prepared_loop.simps [of enc w prompt c]
               split: option.splits sum.splits)
    from pr obtain x where sm: "summarize_context enc w c = Some (Inr x, w1)"
      and c1: "c1 = c\<lparr>context_list := insert_at 1 x (del_slice 1 9 (context_list c))\<rparr>"
      by (auto simp: prune_context_def split: option.splits sum.splits)
    have list: "insert_at 1 x (del_slice 1 9 (context_list c))
                  = take 1 (context_list c) @ x # drop 9 (context_list c)"
      by (cases "context_list c") (simp_all add: insert_at_def del_slice_def)
    have "x \<noteq> None"
    proof
      assume "x = None"
      then have "None \<in> set (context_list c1)"
        using c1 list by simp
      then have "get_context_tokenlen enc c1 = Inl AttributeError"
        by (simp add: get_context_tokenlen_def for_each_None)
      with rec show False
        by (simp add: get_prepared_loop.simps [of enc w1 prompt c1])
    qed
    then obtain s where "x = Some s" by auto
    with sm c1 list pr rec n True show ?thesis
      by auto
  qed
qed

lemma get_prepared_loop_shape:
  "get_prepared_loop enc w prompt c = Some (Inr u, c', w') \<Longrightarrow> context_list c \<noteq> [] \<Longrightarrow>
     context_list c' = context_list c \<or>
     (\<exists>k s. 0 < k \<and>
        context_list c'
          = take 1 (context_list c) @ Some s # drop (2 + 7 * k) (context_list c))"
proof (induction enc w prompt c rule: get_prepared_loop.induct)
  case (1 enc w prompt c)
  from get_prepared_loop_unfold [OF "1.prems"(1)] obtain n where
    n: "get_context_tokenlen enc c = Inr n"
    and branch: "if API_TOKEN_LIMIT
                 < n + get_tokenlen enc prompt + MAX_TOKENS + get_tokenlen enc (summary_message c)
            then \<exists>s w1.
                   summarize_context enc w c = Some (Inr (Some s), w1) \<and>
                   prune_context enc w c
                     = Some (Inr (),
                             c\<lparr>context_list :=
                                 take 1 (context_list c) @ Some s # drop 9 (context_list c)\<rparr>,
                             w1) \<and>
                   get_prepared_loop enc w1 prompt
                       (c\<lparr>context_list :=
                           take 1 (context_list c) @ Some s # drop 9 (context_list c)\<rparr>)
                     = Some (Inr u, c', w')
            else c' = c \<and> w' = w"
    by blast
  show ?case
  proof (cases "API_TOKEN_LIMIT
                 < n + get_tokenlen enc prompt + MAX_TOKENS + get_tokenlen enc (summary_message c)")
    case False
    with branch show ?thesis by simp
  next
    case True
    define cl where "cl = context_list c"
    from True branch obtain s w1 where
      pr: "prune_context enc w c
             = Some (Inr (), c\<lparr>context_list := take 1 cl @ Some s # drop 9 cl\<rparr>, w1)"
      and rec: "get_prepared_loop enc w1 prompt (c\<lparr>context_list := take 1 cl @ Some s # drop 9 cl\<rparr>)
                  = Some (Inr u, c', w')"
      unfolding cl_def by auto
    from "1.prems"(2) obtain p tail where cl: "cl = p # tail"
      unfolding cl_def by (cases "context_list c") auto
    have over: "n + get_tokenlen enc prompt + MAX_TOKENS + get_tokenlen enc (summary_message c)
                  > API_TOKEN_LIMIT"
      using True by simp
    from "1.IH" [OF n over pr refl refl refl rec]
    have "context_list c' = take 1 cl @ Some s # drop 9 cl \<or>
          (\<exists>k s'. 0 < k \<and>
             context_list c'
               = take 1 (take 1 cl @ Some s # drop 9 cl) @ Some s'
                   # drop (2 + 7 * k) (take 1 cl @ Some s # drop 9 cl))"
      by simp
    then show ?thesis
    proof
      assume "context_list c' = take 1 cl @ Some s # drop 9 cl"
      then have "0 < (1::nat) \<and> context_list c' = take 1 cl @ Some s # drop (2 + 7 * 1) cl"
        by simp
      then show ?thesis
        unfolding cl_def by blast
    next
      assume "\<exists>k s'. 0 < k \<and>
             context_list c'
               = take 1 (take 1 cl @ Some s # drop 9 cl) @ Some s'
                   # drop (2 + 7 * k) (take 1 cl @ Some s # drop 9 cl)"
      then obtain k s' where k: "0 < k"
        and c': "context_list c'
               = take 1 (take 1 cl @ Some s # drop 9 cl) @ Some s'
                   # drop (2 + 7 * k) (take 1 cl @ Some s # drop 9 cl)"
        by blast
      have "drop (2 + 7 * k) (take 1 cl @ Some s # drop 9 cl) = drop (7 * k + 8) tail"
        using cl by (simp add: drop_Cons' add.commute)
      moreover have "drop (2 + 7 * Suc k) cl = drop (7 * k + 8) tail"
        using cl by (simp add: drop_Cons' add.commute)
      ultimately
      have "drop (2 + 7 * k) (take 1 cl @ Some s # drop 9 cl) = drop (2 + 7 * Suc k) cl"
        by simp
      with c' cl have "0 < Suc k \<and>
          context_list c' = take 1 cl @ Some s' # drop (2 + 7 * Suc k) cl"
        by simp
      then show ?thesis
        unfolding cl_def by blast
    qed
  qed
qed

lemma pruning_summary_mono:
  "pruning_summary enc ps x \<Longrightarrow> set ps \<subseteq> set ps' \<Longrightarrow> pruning_summary enc ps' x"
  unfolding pruning_summary_def by blast

lemma get_response_loop_world:
  "get_response_loop enc data r ps log = Some (res, v) \<Longrightarrow>
     set (pending v) \<subseteq> set ps \<and> (\<exists>k. sent v = log @ replicate (Suc k) data)"
proof (induction enc data r ps log rule: get_response_loop.induct)
  case (1 enc data r log)
  then show ?case by simp
next
  case (2 enc data r rest log)
  then have "sent v = log @ replicate (Suc 0) data" and "set (pending v) \<subseteq> set rest"
    by auto
  then show ?case by auto
next
  case (3 enc data r response rest log)
  show ?case
  proof (cases "status_code response \<noteq> 200 \<and> status_code response = 429")
    case False
    with "3.prems" have "pending v = rest" and "sent v = log @ replicate (Suc 0) data"
      by (auto simp: Let_def split: if_splits body.splits)
    then show ?thesis by auto
  next
    case True
    with "3.prems" have rec: "get_response_loop enc data r rest (log @ [data]) = Some (res, v)"
      by (simp add: Let_def)
    from True have "status_code response \<noteq> 200" "status_code response = 429"
      by simp_all
    from "3.IH" [OF refl this rec] obtain k where
      "set (pending v) \<subseteq> set rest" "sent v = (log @ [data]) @ replicate (Suc k) data"
      by blast
    then have "set (pending v) \<subseteq> set (Reply response # rest) \<and>
               sent v = log @ replicate (Suc (Suc k)) data"
      by auto
    then show ?thesis by blast
  qed
qed

lemma get_response_loop_value:
  "get_response_loop enc data r ps log = Some (Inr (Some m), v) \<Longrightarrow>
     \<exists>q s. Reply q \<in> set ps \<and> status_code q = 200 \<and> body q = Completion s \<and>
           m = ChatMessage_init enc r (strip s) (received q)"
proof (induction enc data r ps log rule: get_response_loop.induct)
  case (1 enc data r log)
  then show ?case by simp
next
  case (2 enc data r rest log)
  then show ?case by simp
next
  case (3 enc data r response rest log)
  show ?case
  proof (cases "status_code response = 200")
    case True
    with "3.prems" obtain s where "body response = Completion s"
      "m = ChatMessage_init enc r (strip s) (received response)"
      by (auto simp: Let_def split: body.splits)
    with True show ?thesis by auto
  next
    case False
    with "3.prems" have code: "status_code response = 429"
      and rec: "get_response_loop enc data r rest (log @ [data]) = Some (Inr (Some m), v)"
      by (auto simp: Let_def split: if_splits body.splits)
    from "3.IH" [OF refl False code rec] show ?thesis by auto
  qed
qed

lemma get_response_world:
  assumes "get_response enc w message_list r = Some (res, w')"
  shows "set (pending w') \<subseteq> set (pending w) \<and> (\<exists>new. sent w' = sent w @ new)"
  using get_response_loop_world [of enc _ r "pending w" "sent w" res w'] assms
  by (auto simp: get_response_def Let_def)

lemma summarize_context_world:
  assumes "summarize_context enc w c = Some (Inr x, w1)"
  shows "set (pending w1) \<subseteq> set (pending w) \<and>
         (\<exists>new. sent w1 = sent w @ new \<and> (\<exists>req\<in>set new. \<exists>t. messages req = MsgStr t)) \<and>
         (x = None \<or> pruning_summary enc (pending w) x)"
proof -
  from assms obtain ds where
    loop: "get_response_loop enc
             \<lparr>messages = MsgStr (dumps_list ds), temperature = TEMPERATURE,
               max_tokens = MAX_TOKENS, model = API_MODEL\<rparr> ''user'' (pending w) (sent w)
           = Some (Inr x, w1)"
    by (auto simp: summarize_context_def get_response_def Let_def split: sum.splits)
  define data where "data = \<lparr>messages = MsgStr (dumps_list ds), temperature = TEMPERATURE,
               max_tokens = MAX_TOKENS, model = API_MODEL\<rparr>"
  from get_response_loop_world [OF loop] obtain k where
    sub: "set (pending w1) \<subseteq> set (pending w)" and s: "sent w1 = sent w @ replicate (Suc k) data"
    unfolding data_def by blast
  have "data \<in> set (replicate (Suc k) data)" by simp
  moreover have "\<exists>t. messages data = MsgStr t" by (simp add: data_def)
  ultimately have new: "\<exists>new. sent w1 = sent w @ new \<and> (\<exists>req\<in>set new. \<exists>t. messages req = MsgStr t)"
    using s by blast
  have "x = None \<or> pruning_summary enc (pending w) x"
  proof (cases x)
    case None
    then show ?thesis by simp
  next
    case (Some m)
    with get_response_loop_value [of enc _ "''user''" "pending w" "sent w" m w1] loop
    show ?thesis
      unfolding pruning_summary_def by blast
  qed
  with sub new show ?thesis by blast
qed

lemma get_prepared_loop_world:
  "get_prepared_loop enc w prompt c = Some (Inr u, c', w') \<Longrightarrow> context_list c \<noteq> [] \<Longrightarrow>
     set (pending w') \<subseteq> set (pending w) \<and>
     (\<exists>new. sent w' = sent w @ new \<and>
        (take 1 (drop 1 (context_list c')) = take 1 (drop 1 (context_list c)) \<or>
         (\<exists>x. take 1 (drop 1 (context_list c')) = [x] \<and>
              pruning_summary enc (pending w) x \<and>
              (\<exists>req\<in>set new. \<exists>t. messages req = MsgStr t))))"
proof (induction enc w prompt c rule: get_prepared_loop.induct)
  case (1 enc w prompt c)
  from get_prepared_loop_unfold [OF "1.prems"(1)] obtain n where
    n: "get_context_tokenlen enc c = Inr n"
    and branch: "if API_TOKEN_LIMIT
                 < n + get_tokenlen enc prompt + MAX_TOKENS + get_tokenlen enc (summary_message c)
            then \<exists>s w1.
                   summarize_context enc w c = Some (Inr (Some s), w1) \<and>
                   prune_context enc w c
                     = Some (Inr (),
                             c\<lparr>context_list :=
                                 take 1 (context_list c) @ Some s # drop 9 (context_list c)\<rparr>,
                             w1) \<and>
                   get_prepared_loop enc w1 prompt
                       (c\<lparr>context_list :=
                           take 1 (context_list c) @ Some s # drop 9 (context_list c)\<rparr>)
                     = Some (Inr u, c', w')
            else c' = c \<and> w' = w"
    by blast
  show ?case
  proof (cases "API_TOKEN_LIMIT
                 < n + get_tokenlen enc prompt + MAX_TOKENS + get_tokenlen enc (summary_message c)")
    case False
    with branch have "c' = c" "sent w' = sent w @ []" "w' = w" by simp_all
    then show ?thesis by blast
  next
    case True
    define cl where "cl = context_list c"
    define c1 where "c1 s = c\<lparr>context_list := take 1 cl @ Some s # drop 9 cl\<rparr>" for s
    from True branch obtain s w1 where
      sm: "summarize_context enc w c = Some (Inr (Some s), w1)"
      and pr: "prune_context enc w c = Some (Inr (), c1 s, w1)"
      and rec: "get_prepared_loop enc w1 prompt (c1 s) = Some (Inr u, c', w')"
      unfolding cl_def c1_def by auto
    from "1.prems"(2) obtain p tail where cl: "cl = p # tail"
      unfolding cl_def by (cases "context_list c") auto
    have slot1: "take 1 (drop 1 (context_list (c1 s))) = [Some s]"
      and ne1: "context_list (c1 s) \<noteq> []"
      using cl by (simp_all add: c1_def)
    have over: "n + get_tokenlen enc prompt + MAX_TOKENS + get_tokenlen enc (summary_message c)
                  > API_TOKEN_LIMIT"
      using True by simp
    from summarize_context_world [OF sm] obtain new1 where
      sub1: "set (pending w1) \<subseteq> set (pending w)"
      and new1: "sent w1 = sent w @ new1" "\<exists>req\<in>set new1. \<exists>t. messages req = MsgStr t"
      and sv: "pruning_summary enc (pending w) (Some s)"
      by auto
    from "1.IH" [OF n over pr refl refl refl rec ne1] obtain new2 where
      sub2: "set (pending w') \<subseteq> set (pending w1)"
      and new2: "sent w' = sent w1 @ new2"
      and slot: "take 1 (drop 1 (context_list c')) = take 1 (drop 1 (context_list (c1 s))) \<or>
         (\<exists>x. take 1 (drop 1 (context_list c')) = [x] \<and>
              pruning_summary enc (pending w1) x \<and>
              (\<exists>req\<in>set new2. \<exists>t. messages req = MsgStr t))"
      by blast
    have sent: "sent w' = sent w @ (new1 @ new2)"
      using new1(1) new2 by simp
    have "\<exists>x. take 1 (drop 1 (context_list c')) = [x] \<and>
              pruning_summary enc (pending w) x \<and>
              (\<exists>req\<in>set (new1 @ new2). \<exists>t. messages req = MsgStr t)"
      using slot
    proof
      assume "take 1 (drop 1 (context_list c')) = take 1 (drop 1 (context_list (c1 s)))"
      with slot1 sv new1(2) show ?thesis by auto
    next
      assume "\<exists>x. take 1 (drop 1 (context_list c')) = [x] \<and>
              pruning_summary enc (pending w1) x \<and>
              (\<exists>req\<in>set new2. \<exists>t. messages req = MsgStr t)"
      then obtain x where "take 1 (drop 1 (context_list c')) = [x]"
        "pruning_summary enc (pending w1) x" "\<exists>req\<in>set new2. \<exists>t. messages req = MsgStr t"
        by blast
      with pruning_summary_mono [OF _ sub1] show ?thesis by auto
    qed
    with sent sub1 sub2 show ?thesis
      unfolding cl_def by blast
  qed
qed

lemma tracked_reset_chat: "tracked enc w0 m w1 \<Longrightarrow> tracked enc w0 (reset_chat m) w1"
proof -
  assume t: "tracked enc w0 m w1"
  then have "covered (reset_chat m)"
    by (simp add: tracked_def covered_reset_chat)
  moreover have "take 1 (drop 1 (context_list (context_obj (reset_chat m)))) = []"
    by (simp add: reset_chat_def reset_context_def del_from_def)
  ultimately show ?thesis
    using t by (auto simp: tracked_def)
qed

lemma tracked_submit_prompt:
  assumes "tracked enc w0 m w1"
    and "submit_prompt enc w1 prompt m = Some (Inr response, m', w2)"
  shows "tracked enc w0 m' w2"
proof -
  let ?cl = "context_list (context_obj m)"
  from assms(1) have cov: "covered m" and sub0: "set (pending w1) \<subseteq> set (pending w0)"
    by (simp_all add: tracked_def)
  from assms(1) obtain old where old: "sent w1 = sent w0 @ old"
    and slot0: "\<forall>x\<in>set (take 1 (drop 1 ?cl)).
            logged (history m) x \<or>
            (pruning_summary enc (pending w0) x \<and>
             (\<exists>req\<in>set old. \<exists>t. messages req = MsgStr t))"
    by (auto simp: tracked_def)
  from cov have ne: "?cl \<noteq> []" by (simp add: covered_def)
  from assms(2) obtain js c1 w1' where
    prep: "get_prepared_context enc w1 prompt (context_obj m) = Some (Inr js, c1, w1')"
    and turn: "get_response enc w1' (MsgList js) ''assistant'' = Some (Inr response, w2)"
    and m': "m' = update_history prompt response (m\<lparr>context_obj := c1\<rparr>)"
    by (auto simp: submit_prompt_def split: option.splits sum.splits)
  from prep obtain u c0 where
    loop: "get_prepared_loop enc w1 prompt (context_obj m) = Some (Inr u, c0, w1')"
    and c1: "c1 = c0\<lparr>context_list := context_list c0 @ [Some prompt]\<rparr>"
    by (auto simp: get_prepared_context_def Let_def split: option.splits sum.splits)
  have hist: "history m' = history m @ [Some prompt, response]"
    and cl': "context_list (context_obj m') = context_list c0 @ [Some prompt]"
    using m' c1 by (simp_all add: update_history_def)
  from get_prepared_loop_world [OF loop ne] obtain new1 where
    sub1: "set (pending w1') \<subseteq> set (pending w1)"
    and new1: "sent w1' = sent w1 @ new1"
    and slot1: "take 1 (drop 1 (context_list c0)) = take 1 (drop 1 ?cl) \<or>
         (\<exists>x. take 1 (drop 1 (context_list c0)) = [x] \<and>
              pruning_summary enc (pending w1) x \<and>
              (\<exists>req\<in>set new1. \<exists>t. messages req = MsgStr t))"
    by blast
  from get_response_world [OF turn] obtain new2 where
    sub2: "set (pending w2) \<subseteq> set (pending w1')" and new2: "sent w2 = sent w1' @ new2"
    by blast
  have sent: "sent w2 = sent w0 @ (old @ new1 @ new2)"
    using old new1 new2 by simp
  have pend: "set (pending w2) \<subseteq> set (pending w0)"
    using sub0 sub1 sub2 by blast
  have logged_mono: "logged (history m') x" if "logged (history m) x" for x
    using that by (auto simp: logged_def hist)
  have slot: "logged (history m') x \<or>
            (pruning_summary enc (pending w0) x \<and>
             (\<exists>req\<in>set (old @ new1 @ new2). \<exists>t. messages req = MsgStr t))"
    if x: "x \<in> set (take 1 (drop 1 (context_list (context_obj m'))))" for x
  proof -
    from get_prepared_loop_keeps_first [OF loop ne] ne obtain p0 rest where
      c0: "context_list c0 = p0 # rest"
      by (cases "context_list c0") auto
    show ?thesis
    proof (cases rest)
      case Nil
      with x cl' c0 have "x = Some prompt"
        by simp
      then show ?thesis
        by (simp add: logged_def hist)
    next
      case (Cons y ys)
      with x cl' c0 have x0: "x \<in> set (take 1 (drop 1 (context_list c0)))"
        by simp
      from slot1 show ?thesis
      proof
        assume "take 1 (drop 1 (context_list c0)) = take 1 (drop 1 ?cl)"
        with x0 slot0 have "logged (history m) x \<or>
              (pruning_summary enc (pending w0) x \<and>
               (\<exists>req\<in>set old. \<exists>t. messages req = MsgStr t))"
          by simp
        with logged_mono show ?thesis by auto
      next
        assume "\<exists>x. take 1 (drop 1 (context_list c0)) = [x] \<and>
                pruning_summary enc (pending w1) x \<and>
                (\<exists>req\<in>set new1. \<exists>t. messages req = MsgStr t)"
        with x0 have "pruning_summary enc (pending w1) x"
          and "\<exists>req\<in>set new1. \<exists>t. messages req = MsgStr t"
          by auto
        with pruning_summary_mono [OF _ sub0] show ?thesis by auto
      qed
    qed
  qed
  from covered_submit_prompt [OF cov assms(2)] have "covered m'" .
  with pend sent slot show ?thesis
    unfolding tracked_def by blast
qed

lemma tracked_run_manager:
  "run_manager enc w1 calls m = Some (Inr u, m', w') \<Longrightarrow> tracked enc w0 m w1 \<Longrightarrow>
     tracked enc w0 m' w'"
proof (induction calls arbitrary: w1 m)
  case Nil
  then show ?case by simp
next
  case (Cons x calls)
  from Cons.prems(1) obtain v m1 w2 where
    step: "call_manager enc w1 x m = Some (Inr v, m1, w2)"
    and rest: "run_manager enc w2 calls m1 = Some (Inr u, m', w')"
    by (auto split: option.splits sum.splits)
  have "tracked enc w0 m1 w2"
  proof (cases x)
    case (Submit prompt)
    with step obtain response where "submit_prompt enc w1 prompt m = Some (Inr response, m1, w2)"
      by (auto split: option.splits sum.splits)
    from tracked_submit_prompt [OF Cons.prems(2) this] show ?thesis .
  next
    case ResetChat
    with step Cons.prems(2) show ?thesis
      by (auto simp: tracked_reset_chat)
  qed
  from Cons.IH [OF rest this] show ?case .
qed

lemma tracked_init: "tracked enc w (ChatManager_init enc personality t1 t2 t3) w"
proof -
  have "context_list (context_obj (ChatManager_init enc personality t1 t2 t3))
          = [Some (get_personality_prompt enc personality t1)]"
    by (simp add: ChatManager_init_def Context_init_def)
  then show ?thesis
    by (simp add: tracked_def covered_init)
qed

subsection \<open>The token budget\<close>

text \<open>
  C1. When get_prepared_context returns its list (no call inside it raised and every
  pruning round returned), the context list is a list of messages that ends with the
  prompt, and the token counts of all of them (the pinned message and the tail with
  the prompt), plus MAX_TOKENS, plus the token count of the summary request, are at
  most API_TOKEN_LIMIT.
\<close>

theorem prepared_context_within_budget:
  assumes "get_prepared_context enc w prompt c = Some (Inr ds, c', w')"
  shows "\<exists>ms. context_list c' = map Some (ms @ [prompt]) \<and>
           get_context_tokenlen enc c' = Inr (sum_list (map (get_tokenlen enc) (ms @ [prompt]))) \<and>
           sum_list (map (get_tokenlen enc) (ms @ [prompt])) + MAX_TOKENS
             + get_tokenlen enc (summary_message c') \<le> API_TOKEN_LIMIT"
proof -
  from assms obtain u c1 where
    loop: "get_prepared_loop enc w prompt c = Some (Inr u, c1, w')"
    and c': "c' = c1\<lparr>context_list := context_list c1 @ [Some prompt]\<rparr>"
    by (auto simp: get_prepared_context_def Let_def split: option.splits sum.splits)
  from get_prepared_loop_Inr [OF loop] obtain n where
    n: "get_context_tokenlen enc c1 = Inr n"
    and le: "n + get_tokenlen enc prompt + MAX_TOKENS + get_tokenlen enc (summary_message c1)
               \<le> API_TOKEN_LIMIT"
    by blast
  from get_context_tokenlen_Inr [OF n] obtain ms where
    ms: "context_list c1 = map Some ms" "n = sum_list (map (get_tokenlen enc) ms)"
    by blast
  have list: "context_list c' = map Some (ms @ [prompt])"
    using c' ms by simp
  then have "get_context_tokenlen enc c' = Inr (sum_list (map (get_tokenlen enc) (ms @ [prompt])))"
    unfolding get_context_tokenlen_def by (simp only: for_each_Some sum.case)
  moreover have "sum_list (map (get_tokenlen enc) (ms @ [prompt])) + MAX_TOKENS
             + get_tokenlen enc (summary_message c') \<le> API_TOKEN_LIMIT"
    using le ms c' by simp
  ultimately show ?thesis using list by blast
qed

theorem prepared_context_within_budget_witness:
  "get_prepared_context enc0 one_reply (big 5) one_big
     = Some (Inr (map to_dict [pinned0, ok7, big 5]),
             one_big_prepared, one_reply_taken)
   \<and> (\<exists>ms. context_list one_big_prepared = map Some (ms @ [big 5]) \<and>
           get_context_tokenlen enc0 one_big_prepared
             = Inr (sum_list (map (get_tokenlen enc0) (ms @ [big 5]))) \<and>
           sum_list (map (get_tokenlen enc0) (ms @ [big 5])) + MAX_TOKENS
             + get_tokenlen enc0 (summary_message one_big_prepared) \<le> API_TOKEN_LIMIT)"
proof -
  have run: "get_prepared_context enc0 one_reply (big 5) one_big
     = Some (Inr (map to_dict [pinned0, ok7, big 5]),
             one_big_prepared, one_reply_taken)"
    by code_simp
  from run prepared_context_within_budget [OF run] show ?thesis
    by (rule conjI)
qed

subsection \<open>Reset\<close>

text \<open>
  C6. Resetting twice gives the same state as resetting once; after a reset the tail
  (the context list after its first entry) is empty, and the token total of a context
  whose list starts with the pinned message is the token count of that message alone.
\<close>

theorem reset_context_idempotent:
  "reset_context (reset_context c) = reset_context c \<and>
   drop 1 (context_list (reset_context c)) = [] \<and>
   (\<forall>pinned tail. context_list c = Some pinned # tail \<longrightarrow>
      get_context_tokenlen enc (reset_context c) = Inr (get_tokenlen enc pinned))"
  by (simp add: reset_context_def del_from_def get_context_tokenlen_def)

theorem reset_context_idempotent_witness:
  "context_list one_big_prepared = Some pinned0 # [Some ok7, Some (big 5)] \<and>
   get_context_tokenlen enc0 (reset_context one_big_prepared) = Inr (get_tokenlen enc0 pinned0)"
proof -
  have start: "context_list one_big_prepared = Some pinned0 # [Some ok7, Some (big 5)]"
    by (simp add: one_big_prepared_def)
  from reset_context_idempotent [of one_big_prepared enc0] start show ?thesis
    by blast
qed

subsection \<open>The message that get_response returns\<close>

text \<open>
  C10. When get_response returns a message, its role is the role the caller passed, and
  its content is the completion text of the first reply that is not a rate-limit reply
  (that reply has status 200), with the whitespace at both ends removed: the text is
  the content between two runs of whitespace, and the content neither starts nor ends
  with whitespace. Conversely, when the first reply that is not a rate-limit reply has
  status 200 and a completion text, get_response returns the message made of the
  caller's role and the stripped text. The summary that summarize_context obtains for
  pruning is requested without a role, so it has the default role, user.
\<close>

theorem get_response_role_and_content:
  "(get_response enc w message_list r = Some (Inr (Some m), w') \<longrightarrow>
      role m = r \<and>
      (\<exists>retries response s.
         pending w = retries @ Reply response # pending w' \<and>
         (\<forall>x\<in>set retries. \<exists>q. x = Reply q \<and> status_code q = 429) \<and>
         status_code response = 200 \<and> body response = Completion s \<and>
         content m = strip s \<and>
         (\<exists>a b. s = a @ content m @ b \<and>
                (\<forall>ch\<in>set a. isspace ch) \<and> (\<forall>ch\<in>set b. isspace ch)) \<and>
         (content m \<noteq> [] \<longrightarrow>
            \<not> isspace (hd (content m)) \<and> \<not> isspace (last (content m))))) \<and>
   (pending w = retries @ Reply response # rest \<and>
    (\<forall>x\<in>set retries. \<exists>q. x = Reply q \<and> status_code q = 429) \<and>
    status_code response = 200 \<and> body response = Completion s \<longrightarrow>
      (\<exists>w2. get_response enc w message_list r
               = Some (Inr (Some (ChatMessage_init enc r (strip s) (received response))), w2) \<and>
            pending w2 = rest)) \<and>
   (summarize_context enc w c = Some (Inr (Some m), w') \<longrightarrow> role m = ''user'')"
proof (intro conjI impI)
  assume ret: "get_response enc w message_list r = Some (Inr (Some m), w')"
  then have "get_response_loop enc
      \<lparr>messages = message_list, temperature = TEMPERATURE, max_tokens = MAX_TOKENS,
        model = API_MODEL\<rparr> r (pending w) (sent w) = Some (Inr (Some m), w')"
    by (simp add: get_response_def Let_def)
  from get_response_loop_message [OF this] obtain retries response s where
    r: "role m = r" "pending w = retries @ Reply response # pending w'"
       "\<forall>x\<in>set retries. \<exists>q. x = Reply q \<and> status_code q = 429"
       "status_code response = 200" "body response = Completion s" "content m = strip s"
    by blast
  show "role m = r" by (rule r)
  have "\<exists>a b. s = a @ content m @ b \<and> (\<forall>ch\<in>set a. isspace ch) \<and> (\<forall>ch\<in>set b. isspace ch)"
    using strip_decomp [of s] r by simp
  moreover have "content m \<noteq> [] \<longrightarrow> \<not> isspace (hd (content m)) \<and> \<not> isspace (last (content m))"
    using strip_ends [of s] r by simp
  ultimately show "\<exists>retries response s.
         pending w = retries @ Reply response # pending w' \<and>
         (\<forall>x\<in>set retries. \<exists>q. x = Reply q \<and> status_code q = 429) \<and>
         status_code response = 200 \<and> body response = Completion s \<and>
         content m = strip s \<and>
         (\<exists>a b. s = a @ content m @ b \<and>
                (\<forall>ch\<in>set a. isspace ch) \<and> (\<forall>ch\<in>set b. isspace ch)) \<and>
         (content m \<noteq> [] \<longrightarrow>
            \<not> isspace (hd (content m)) \<and> \<not> isspace (last (content m)))"
    using r by blast
next
  assume "pending w = retries @ Reply response # rest \<and>
    (\<forall>x\<in>set retries. \<exists>q. x = Reply q \<and> status_code q = 429) \<and>
    status_code response = 200 \<and> body response = Completion s"
  then have w: "pending w = retries @ Reply response # rest"
    and retries: "\<forall>x\<in>set retries. \<exists>q. x = Reply q \<and> status_code q = 429"
    and ok: "status_code response = 200" "body response = Completion s"
    by simp_all
  define data where "data = \<lparr>messages = message_list, temperature = TEMPERATURE,
                              max_tokens = MAX_TOKENS, model = API_MODEL\<rparr>"
  define log where "log = sent w @ replicate (length retries) data"
  have "get_response enc w message_list r
          = get_response_loop enc data r (retries @ Reply response # rest) (sent w)"
    by (simp only: get_response_def Let_def data_def w)
  also have "\<dots> = get_response_loop enc data r (Reply response # rest) log"
    unfolding log_def by (rule get_response_loop_retries [OF retries])
  also have "\<dots> = Some (Inr (Some (ChatMessage_init enc r (strip s) (received response))),
                        \<lparr>pending = rest, sent = log @ [data]\<rparr>)"
    using ok by (simp add: Let_def)
  finally show "\<exists>w2. get_response enc w message_list r
               = Some (Inr (Some (ChatMessage_init enc r (strip s) (received response))), w2) \<and>
            pending w2 = rest"
    by simp
next
  assume "summarize_context enc w c = Some (Inr (Some m), w')"
  then obtain ds where "get_response_loop enc
      \<lparr>messages = MsgStr (dumps_list ds), temperature = TEMPERATURE, max_tokens = MAX_TOKENS,
        model = API_MODEL\<rparr> ''user'' (pending w) (sent w) = Some (Inr (Some m), w')"
    by (auto simp: summarize_context_def get_response_def Let_def split: sum.splits)
  from get_response_loop_message [OF this] show "role m = ''user''"
    by simp
qed

theorem get_response_role_and_content_witness:
  "get_response enc0 retry_then_reply (MsgList []) ''assistant''
     = Some (Inr (Some (ChatMessage_init enc0 ''assistant'' ''ok'' 7)),
             \<lparr>pending = [], sent = [turn_request [], turn_request []]\<rparr>) \<and>
   pending retry_then_reply
     = [error_reply 429 6]
       @ Reply \<lparr>status_code = 200, body = Completion '' ok '', received = 7\<rparr> # [] \<and>
   summarize_context enc0 one_reply one_big = Some (Inr (Some ok7), one_reply_taken) \<and>
   role (ChatMessage_init enc0 ''assistant'' ''ok'' 7) = ''assistant'' \<and>
   (\<exists>s. content (ChatMessage_init enc0 ''assistant'' ''ok'' 7) = strip s) \<and>
   (\<exists>w2. get_response enc0 retry_then_reply (MsgList []) ''assistant''
           = Some (Inr (Some (ChatMessage_init enc0 ''assistant'' (strip '' ok '') 7)), w2) \<and>
         pending w2 = []) \<and>
   role ok7 = ''user''"
proof -
  have turn: "get_response enc0 retry_then_reply (MsgList []) ''assistant''
     = Some (Inr (Some (ChatMessage_init enc0 ''assistant'' ''ok'' 7)),
             \<lparr>pending = [], sent = [turn_request [], turn_request []]\<rparr>)"
    by code_simp
  have w: "pending retry_then_reply
     = [error_reply 429 6]
       @ Reply \<lparr>status_code = 200, body = Completion '' ok '', received = 7\<rparr> # []"
    by (simp add: retry_then_reply_def ok_reply_def)
  have retries: "\<forall>x\<in>set [error_reply 429 6]. \<exists>q. x = Reply q \<and> status_code q = 429"
    by (simp add: error_reply_def)
  have summary: "summarize_context enc0 one_reply one_big
     = Some (Inr (Some ok7), one_reply_taken)"
    by code_simp
  note inst = get_response_role_and_content
         [of enc0 retry_then_reply "MsgList []" "''assistant''"
             "ChatMessage_init enc0 ''assistant'' ''ok'' 7"
             "\<lparr>pending = [], sent = [turn_request [], turn_request []]\<rparr>"
             "[error_reply 429 6]"
             "\<lparr>status_code = 200, body = Completion '' ok '', received = 7\<rparr>" "[]"
             "'' ok ''"]
  from inst turn
  have first: "role (ChatMessage_init enc0 ''assistant'' ''ok'' 7) = ''assistant'' \<and>
     (\<exists>s. content (ChatMessage_init enc0 ''assistant'' ''ok'' 7) = strip s)"
    by blast
  from inst w retries
  have second: "\<exists>w2. get_response enc0 retry_then_reply (MsgList []) ''assistant''
           = Some (Inr (Some (ChatMessage_init enc0 ''assistant'' (strip '' ok '') 7)), w2) \<and>
         pending w2 = []"
    by simp
  from get_response_role_and_content
         [of enc0 one_reply "MsgList []" "''user''" ok7 one_reply_taken _ _ _ _ one_big]
       summary
  have "role ok7 = ''user''"
    by blast
  with turn w summary first second show ?thesis
    by blast
qed

subsection \<open>The pinned message\<close>

text \<open>
  C5. After every finite sequence of get_prepared_context, prune_context and
  reset_context calls on a freshly created Context (whether the calls return or raise),
  the first entry of the context list is the pinned message that the constructor put
  there, with role system and the personality's system prompt as content.
\<close>

theorem pinned_message_stays_first:
  assumes "run_context enc w calls (Context_init enc personality t1 t2) = Some (c', w')"
  shows "(\<exists>tail. context_list c' = Some (get_personality_prompt enc personality t1) # tail) \<and>
         role (get_personality_prompt enc personality t1) = ''system'' \<and>
         content (get_personality_prompt enc personality t1) = system_prompt personality"
proof -
  have "context_list (Context_init enc personality t1 t2) \<noteq> []"
    by (simp add: Context_init_def)
  from run_context_keeps_first [OF assms this]
  have "take 1 (context_list c') = [Some (get_personality_prompt enc personality t1)]"
    by (simp add: Context_init_def)
  then have "\<exists>tail. context_list c' = Some (get_personality_prompt enc personality t1) # tail"
    by (cases "context_list c'") auto
  then show ?thesis
    by (simp add: get_personality_prompt_def ChatMessage_init_def Let_def)
qed

theorem pinned_message_stays_first_witness:
  "run_context enc0 two_replies [Reset, Prepare (big 4), Prepare (big 5), Prune]
       (Context_init enc0 helpful 1 2)
     = Some (fresh0\<lparr>context_list := [Some pinned0, None]\<rparr>, two_replies_taken) \<and>
   (\<exists>tail. context_list (fresh0\<lparr>context_list := [Some pinned0, None]\<rparr>)
             = Some (get_personality_prompt enc0 helpful 1) # tail) \<and>
   role (get_personality_prompt enc0 helpful 1) = ''system'' \<and>
   content (get_personality_prompt enc0 helpful 1) = system_prompt helpful"
proof -
  have run: "run_context enc0 two_replies [Reset, Prepare (big 4), Prepare (big 5), Prune]
       (Context_init enc0 helpful 1 2)
     = Some (fresh0\<lparr>context_list := [Some pinned0, None]\<rparr>, two_replies_taken)"
    by code_simp
  from run pinned_message_stays_first [OF run] show ?thesis
    by (rule conjI)
qed

subsection \<open>The prepared context\<close>

text \<open>
  C9. When get_prepared_context returns its list, that list is the context list, in
  its order, with every message projected by to_dict, and the context list ends with
  the prompt. When the budget allows the prompt, the context list is the list before
  the call with the prompt appended, and nothing was posted. When it does not, the
  result is that of one pruning round followed by get_prepared_context on the pruned
  context. So the context list is the old list followed by the prompt, or the pinned
  message, one summary, the old list from some index 2 + 7k on (k rounds of pruning),
  and the prompt: the older turns that remain keep their order. The projection is the
  pair of the role and the content; the creation time and the token count have no
  part in it.
\<close>

theorem prepared_context_is_projection:
  assumes "get_prepared_context enc w prompt c = Some (Inr ds, c', w')"
  shows "(\<exists>ms. context_list c' = map Some (ms @ [prompt]) \<and> ds = map to_dict (ms @ [prompt])) \<and>
         (\<exists>n. get_context_tokenlen enc c = Inr n \<and>
            (if API_TOKEN_LIMIT
                  < n + get_tokenlen enc prompt + MAX_TOKENS + get_tokenlen enc (summary_message c)
             then \<exists>s w1.
                    prune_context enc w c
                      = Some (Inr (),
                              c\<lparr>context_list :=
                                  take 1 (context_list c) @ Some s # drop 9 (context_list c)\<rparr>,
                              w1) \<and>
                    get_prepared_context enc w1 prompt
                        (c\<lparr>context_list :=
                            take 1 (context_list c) @ Some s # drop 9 (context_list c)\<rparr>)
                      = Some (Inr ds, c', w')
             else c' = c\<lparr>context_list := context_list c @ [Some prompt]\<rparr> \<and> w' = w)) \<and>
         (context_list c \<noteq> [] \<longrightarrow>
            context_list c' = context_list c @ [Some prompt] \<or>
            (\<exists>k s. 0 < k \<and>
               context_list c'
                 = take 1 (context_list c) @ Some s # drop (2 + 7 * k) (context_list c)
                     @ [Some prompt])) \<and>
         (\<forall>m. to_dict m = [(''role'', role m), (''content'', content m)]) \<and>
         (\<forall>m t k. to_dict (m\<lparr>creation_time := t, tokenlen := k\<rparr>) = to_dict m)"
proof -
  from assms obtain u c1 where
    loop: "get_prepared_loop enc w prompt c = Some (Inr u, c1, w')"
    and c': "c' = c1\<lparr>context_list := context_list c1 @ [Some prompt]\<rparr>"
    and ds: "for_each to_dict (context_list c1 @ [Some prompt]) = Inr ds"
    by (auto simp: get_prepared_context_def Let_def split: option.splits sum.splits)
  from for_each_Inr [OF ds] obtain ns where
    ns: "context_list c1 @ [Some prompt] = map Some ns" "ds = map to_dict ns"
    by blast
  then have "ns \<noteq> []" by auto
  then obtain ms z where nsz: "ns = ms @ [z]"
    by (metis rev_exhaust)
  with ns(1) have ms: "context_list c1 = map Some ms" and z: "z = prompt"
    by auto
  have "context_list c' = map Some (ms @ [prompt]) \<and> ds = map to_dict (ms @ [prompt])"
    using c' ms ns(2) nsz z by simp
  then have 1: "\<exists>ms. context_list c' = map Some (ms @ [prompt]) \<and> ds = map to_dict (ms @ [prompt])"
    by (rule exI)
  from get_prepared_loop_unfold [OF loop] obtain n where
    n: "get_context_tokenlen enc c = Inr n"
    and branch: "if API_TOKEN_LIMIT
                 < n + get_tokenlen enc prompt + MAX_TOKENS + get_tokenlen enc (summary_message c)
            then \<exists>s w1.
                   summarize_context enc w c = Some (Inr (Some s), w1) \<and>
                   prune_context enc w c
                     = Some (Inr (),
                             c\<lparr>context_list :=
                                 take 1 (context_list c) @ Some s # drop 9 (context_list c)\<rparr>,
                             w1) \<and>
                   get_prepared_loop enc w1 prompt
                       (c\<lparr>context_list :=
                           take 1 (context_list c) @ Some s # drop 9 (context_list c)\<rparr>)
                     = Some (Inr u, c1, w')
            else c1 = c \<and> w' = w"
    by blast
  have 2: "if API_TOKEN_LIMIT
                  < n + get_tokenlen enc prompt + MAX_TOKENS + get_tokenlen enc (summary_message c)
             then \<exists>s w1.
                    prune_context enc w c
                      = Some (Inr (),
                              c\<lparr>context_list :=
                                  take 1 (context_list c) @ Some s # drop 9 (context_list c)\<rparr>,
                              w1) \<and>
                    get_prepared_context enc w1 prompt
                        (c\<lparr>context_list :=
                            take 1 (context_list c) @ Some s # drop 9 (context_list c)\<rparr>)
                      = Some (Inr ds, c', w')
             else c' = c\<lparr>context_list := context_list c @ [Some prompt]\<rparr> \<and> w' = w"
  proof (cases "API_TOKEN_LIMIT
                  < n + get_tokenlen enc prompt + MAX_TOKENS + get_tokenlen enc (summary_message c)")
    case False
    with branch c' show ?thesis by simp
  next
    case True
    with branch obtain s w1 where
      pr: "prune_context enc w c
             = Some (Inr (),
                     c\<lparr>context_list :=
                         take 1 (context_list c) @ Some s # drop 9 (context_list c)\<rparr>, w1)"
      and rec: "get_prepared_loop enc w1 prompt
                  (c\<lparr>context_list := take 1 (context_list c) @ Some s # drop 9 (context_list c)\<rparr>)
                  = Some (Inr u, c1, w')"
      by auto
    from rec c' ds have "get_prepared_context enc w1 prompt
                  (c\<lparr>context_list := take 1 (context_list c) @ Some s # drop 9 (context_list c)\<rparr>)
                  = Some (Inr ds, c', w')"
      by (simp add: get_prepared_context_def Let_def)
    with pr True show ?thesis by auto
  qed
  have 3: "context_list c' = context_list c @ [Some prompt] \<or>
            (\<exists>k s. 0 < k \<and>
               context_list c'
                 = take 1 (context_list c) @ Some s # drop (2 + 7 * k) (context_list c)
                     @ [Some prompt])" if "context_list c \<noteq> []"
    using get_prepared_loop_shape [OF loop that] c' by auto
  from 1 n 2 3 show ?thesis
    by (simp add: to_dict_def)
qed

theorem prepared_context_is_projection_witness:
  "get_prepared_context enc0 no_replies (hi 6) two_small
     = Some (Inr (map to_dict [pinned0, hi 4, hi 5, hi 6]),
             two_small\<lparr>context_list := context_list two_small @ [Some (hi 6)]\<rparr>, no_replies) \<and>
   get_prepared_context enc0 late_reply (big 14) long_chat
     = Some (Inr (map to_dict [pinned0, ok20, hi 12, hi 13, big 14]),
             long_chat\<lparr>context_list :=
                         [Some pinned0, Some ok20, Some (hi 12), Some (hi 13), Some (big 14)]\<rparr>,
             late_reply_taken) \<and>
   context_list two_small \<noteq> [] \<and> context_list long_chat \<noteq> [] \<and>
   (\<exists>ms. context_list (two_small\<lparr>context_list := context_list two_small @ [Some (hi 6)]\<rparr>)
           = map Some (ms @ [hi 6]) \<and>
         map to_dict [pinned0, hi 4, hi 5, hi 6] = map to_dict (ms @ [hi 6])) \<and>
   (\<exists>ms. context_list
             (long_chat\<lparr>context_list :=
                [Some pinned0, Some ok20, Some (hi 12), Some (hi 13), Some (big 14)]\<rparr>)
           = map Some (ms @ [big 14]) \<and>
         map to_dict [pinned0, ok20, hi 12, hi 13, big 14] = map to_dict (ms @ [big 14])) \<and>
   get_context_tokenlen enc0 two_small = Inr 30 \<and>
   get_context_tokenlen enc0 long_chat = Inr 1800 \<and>
   (\<exists>s w1. prune_context enc0 late_reply long_chat
             = Some (Inr (),
                     long_chat\<lparr>context_list :=
                        take 1 (context_list long_chat) @ Some s # drop 9 (context_list long_chat)\<rparr>,
                     w1) \<and>
           get_prepared_context enc0 w1 (big 14)
               (long_chat\<lparr>context_list :=
                  take 1 (context_list long_chat) @ Some s # drop 9 (context_list long_chat)\<rparr>)
             = Some (Inr (map to_dict [pinned0, ok20, hi 12, hi 13, big 14]),
                     long_chat\<lparr>context_list :=
                        [Some pinned0, Some ok20, Some (hi 12), Some (hi 13), Some (big 14)]\<rparr>,
                     late_reply_taken))"
proof -
  have short: "get_prepared_context enc0 no_replies (hi 6) two_small
     = Some (Inr (map to_dict [pinned0, hi 4, hi 5, hi 6]),
             two_small\<lparr>context_list := context_list two_small @ [Some (hi 6)]\<rparr>, no_replies)"
    by code_simp
  have long: "get_prepared_context enc0 late_reply (big 14) long_chat
     = Some (Inr (map to_dict [pinned0, ok20, hi 12, hi 13, big 14]),
             long_chat\<lparr>context_list :=
                         [Some pinned0, Some ok20, Some (hi 12), Some (hi 13), Some (big 14)]\<rparr>,
             late_reply_taken)"
    by code_simp
  have ne: "context_list two_small \<noteq> []" "context_list long_chat \<noteq> []"
    by (simp_all add: two_small_def long_chat_def)
  have n1: "get_context_tokenlen enc0 two_small = Inr 30"
    by code_simp
  have n2: "get_context_tokenlen enc0 long_chat = Inr 1800"
    by code_simp
  have over: "API_TOKEN_LIMIT
                < 1800 + get_tokenlen enc0 (big 14) + MAX_TOKENS
                    + get_tokenlen enc0 (summary_message long_chat)"
    by code_simp
  note a = prepared_context_is_projection [OF short]
  note b = prepared_context_is_projection [OF long]
  from a have a1: "\<exists>ms. context_list (two_small\<lparr>context_list := context_list two_small @ [Some (hi 6)]\<rparr>)
           = map Some (ms @ [hi 6]) \<and>
         map to_dict [pinned0, hi 4, hi 5, hi 6] = map to_dict (ms @ [hi 6])"
    by blast
  from b have b1: "\<exists>ms. context_list
             (long_chat\<lparr>context_list :=
                [Some pinned0, Some ok20, Some (hi 12), Some (hi 13), Some (big 14)]\<rparr>)
           = map Some (ms @ [big 14]) \<and>
         map to_dict [pinned0, ok20, hi 12, hi 13, big 14] = map to_dict (ms @ [big 14])"
    by blast
  from b n2 over have b2: "\<exists>s w1. prune_context enc0 late_reply long_chat
             = Some (Inr (),
                     long_chat\<lparr>context_list :=
                        take 1 (context_list long_chat) @ Some s # drop 9 (context_list long_chat)\<rparr>,
                     w1) \<and>
           get_prepared_context enc0 w1 (big 14)
               (long_chat\<lparr>context_list :=
                  take 1 (context_list long_chat) @ Some s # drop 9 (context_list long_chat)\<rparr>)
             = Some (Inr (map to_dict [pinned0, ok20, hi 12, hi 13, big 14]),
                     long_chat\<lparr>context_list :=
                        [Some pinned0, Some ok20, Some (hi 12), Some (hi 13), Some (big 14)]\<rparr>,
                     late_reply_taken)"
    by auto
  from short long ne a1 b1 n1 n2 b2 show ?thesis
    by blast
qed

subsection \<open>One round of pruning\<close>

text \<open>
  C4, as the claim states it, fails: pruning a context whose tail is empty is not a
  no-op. With the summary that the service returns, the tail becomes that one summary.
\<close>

theorem prune_context_empty_tail_counterexample:
  "drop 1 (context_list fresh0) = [] \<and>
   prune_context enc0 one_reply fresh0
     = Some (Inr (), fresh0\<lparr>context_list := [Some pinned0, Some ok7]\<rparr>,
             \<lparr>pending = [], sent = [summary_request [pinned0, summary0]]\<rparr>) \<and>
   drop 1 (context_list (fresh0\<lparr>context_list := [Some pinned0, Some ok7]\<rparr>)) \<noteq> []"
  by code_simp

text \<open>
  C4, amended. When the summarization call returns a summary, one round of
  prune_context removes the first min(8, len(tail)) messages of the tail, puts the
  summary in front of what remains, and changes nothing else in the context. The new
  tail has len(tail) - min(8, len(tail)) + 1 entries: fewer than before when the tail
  had at least 2 entries; when it had one entry or none, the new tail is the summary
  alone.
\<close>

theorem prune_context_round:
  assumes "summarize_context enc w c = Some (Inr (Some summary), w')"
    and "context_list c = pinned # tail"
  shows "prune_context enc w c
           = Some (Inr (),
                   c\<lparr>context_list := pinned # Some summary # drop (min 8 (length tail)) tail\<rparr>,
                   w') \<and>
         length (Some summary # drop (min 8 (length tail)) tail)
           = length tail - min 8 (length tail) + 1 \<and>
         (2 \<le> length tail \<longrightarrow>
            length (Some summary # drop (min 8 (length tail)) tail) < length tail) \<and>
         (length tail \<le> 1 \<longrightarrow> Some summary # drop (min 8 (length tail)) tail = [Some summary])"
proof -
  have "drop (min 8 (length tail)) tail = drop 8 tail"
    by (simp add: min_def)
  then show ?thesis
    using assms by (auto simp: prune_context_def pruned_list)
qed

theorem prune_context_round_witness:
  "summarize_context enc0 one_reply two_small
     = Some (Inr (Some ok7),
             \<lparr>pending = [], sent = [summary_request [pinned0, hi 4, hi 5, summary0]]\<rparr>) \<and>
   context_list two_small = Some pinned0 # [Some (hi 4), Some (hi 5)] \<and>
   summarize_context enc0 one_reply one_big = Some (Inr (Some ok7), one_reply_taken) \<and>
   context_list one_big = Some pinned0 # [Some (big 4)] \<and>
   prune_context enc0 one_reply two_small
     = Some (Inr (), two_small\<lparr>context_list := [Some pinned0, Some ok7]\<rparr>,
             \<lparr>pending = [], sent = [summary_request [pinned0, hi 4, hi 5, summary0]]\<rparr>) \<and>
   prune_context enc0 one_reply one_big
     = Some (Inr (), one_big\<lparr>context_list := [Some pinned0, Some ok7]\<rparr>, one_reply_taken)"
proof -
  have s2: "summarize_context enc0 one_reply two_small
     = Some (Inr (Some ok7),
             \<lparr>pending = [], sent = [summary_request [pinned0, hi 4, hi 5, summary0]]\<rparr>)"
    by code_simp
  have l2: "context_list two_small = Some pinned0 # [Some (hi 4), Some (hi 5)]"
    by (simp add: two_small_def)
  have s1: "summarize_context enc0 one_reply one_big = Some (Inr (Some ok7), one_reply_taken)"
    by code_simp
  have l1: "context_list one_big = Some pinned0 # [Some (big 4)]"
    by (simp add: one_big_def)
  have "(2::nat) \<le> length [Some (hi 4), Some (hi 5)]"
    by simp
  with prune_context_round [OF s2 l2]
  have p2: "prune_context enc0 one_reply two_small
     = Some (Inr (), two_small\<lparr>context_list := [Some pinned0, Some ok7]\<rparr>,
             \<lparr>pending = [], sent = [summary_request [pinned0, hi 4, hi 5, summary0]]\<rparr>)"
    by simp
  have "length [Some (big 4)] \<le> (1::nat)"
    by simp
  with prune_context_round [OF s1 l1]
  have p1: "prune_context enc0 one_reply one_big
     = Some (Inr (), one_big\<lparr>context_list := [Some pinned0, Some ok7]\<rparr>, one_reply_taken)"
    by simp
  from s2 l2 s1 l1 p2 p1 show ?thesis
    by blast
qed

subsection \<open>A failure of the summarization call\<close>

text \<open>
  C2. The claim is that a failure of the summarization call that is not retried is
  propagated by prune_context and leaves the tail as it was. The code does so when the
  call raises: on a transport failure, and on an error reply whose body is not JSON,
  prune_context raises and the context is unchanged. On an error reply with a JSON
  body (status 500) get_response returns None, and prune_context, which does not look
  at the value, returns normally with the tail changed: the entries 1 to 8 are gone
  and None is at index 1. The next token count of that context raises AttributeError.
\<close>

theorem prune_context_splices_none:
  "summarize_context enc0 failing one_big = Some (Inr None, one_reply_taken) \<and>
   prune_context enc0 failing one_big
     = Some (Inr (), one_big\<lparr>context_list := [Some pinned0, None]\<rparr>, one_reply_taken) \<and>
   drop 1 (context_list (one_big\<lparr>context_list := [Some pinned0, None]\<rparr>))
     \<noteq> drop 1 (context_list one_big) \<and>
   get_context_tokenlen enc0 (one_big\<lparr>context_list := [Some pinned0, None]\<rparr>)
     = Inl AttributeError \<and>
   prune_context enc0 transport_failure one_big
     = Some (Inl ConnectionError, one_big, one_reply_taken) \<and>
   prune_context enc0 html_error one_big
     = Some (Inl JSONDecodeError, one_big, one_reply_taken)"
  by code_simp

subsection \<open>A failure of the completion service during submit_prompt\<close>

text \<open>
  C3. The claim is that submit_prompt, when the completion service reports a failure
  that is not retried, gives the caller a failure and appends nothing to history. The
  code leaves history as it was when a call raises (a transport failure, an error
  reply whose body is not JSON, a failed summarization inside pruning). On an error
  reply with a JSON body (status 500) to the request of the turn, get_response returns
  None, and submit_prompt, which does not look at the value, appends the prompt and
  that None to history and returns None. After that get_history raises AttributeError.
\<close>

theorem submit_prompt_logs_none:
  "submit_prompt enc0 failing (big 5) manager0
     = Some (Inr None, manager_failed,
             \<lparr>pending = [], sent = [turn_request [pinned0, big 5]]\<rparr>) \<and>
   history manager0 = [Some pinned3] \<and>
   history manager_failed = [Some pinned3, Some (big 5), None] \<and>
   history manager_failed \<noteq> history manager0 \<and>
   get_history manager0 = Inr [to_dict pinned3] \<and>
   get_history manager_failed = Inl AttributeError \<and>
   submit_prompt enc0 transport_failure (big 5) manager0
     = Some (Inl ConnectionError,
             manager0\<lparr>context_obj := fresh0\<lparr>context_list := [Some pinned0, Some (big 5)]\<rparr>\<rparr>,
             \<lparr>pending = [], sent = [turn_request [pinned0, big 5]]\<rparr>) \<and>
   submit_prompt enc0 html_error (big 5) manager0
     = Some (Inl JSONDecodeError,
             manager0\<lparr>context_obj := fresh0\<lparr>context_list := [Some pinned0, Some (big 5)]\<rparr>\<rparr>,
             \<lparr>pending = [], sent = [turn_request [pinned0, big 5]]\<rparr>) \<and>
   submit_prompt enc0 failing (big 5) manager_one_big
     = Some (Inl AttributeError,
             manager_one_big\<lparr>context_obj := one_big\<lparr>context_list := [Some pinned0, None]\<rparr>\<rparr>,
             one_reply_taken)"
  by code_simp

subsection \<open>The request of the summarization call\<close>

text \<open>
  C7. The messages that summarize_context passes to get_response are not a list of
  role and content pairs: they are one string, the JSON text of that list, and that
  string is what the request carries. The request of a turn carries the list itself.
\<close>

theorem summarize_context_sends_json_text:
  "summarize_context enc0 one_reply one_big = Some (Inr (Some ok7), one_reply_taken) \<and>
   map messages (sent one_reply_taken)
     = [MsgStr (dumps_list [to_dict pinned0, to_dict (big 4), to_dict summary0])] \<and>
   map_option (map messages \<circ> sent \<circ> snd \<circ> snd) (submit_prompt enc0 one_reply (big 5) manager0)
     = Some [MsgList [to_dict pinned0, to_dict (big 5)]]"
  by code_simp

subsection \<open>History and the context list\<close>

text \<open>
  C8, as the claim states it, fails: after two prompts of which the second made
  get_prepared_context prune, the context list holds the summary, and history holds
  no message with the summary's role and content.
\<close>

theorem history_misses_summary_counterexample:
  "run_manager enc0 three_replies [Submit (big 4), Submit (big 5)] manager0
     = Some (Inr (), manager_after_two, three_replies_taken) \<and>
   Some ok7 \<in> set (context_list (context_obj manager_after_two)) \<and>
   map_option to_dict (Some ok7) \<notin> map_option to_dict ` set (history manager_after_two)"
  by code_simp

text \<open>
  C8, amended. After every finite sequence of submit_prompt and reset_chat calls on a
  freshly created ChatManager, none of which raised, every message of the context list
  is, as a role and content pair, present in history, with one possible exception: the
  entry at index 1 may be missing from history when it is a summary that pruning put
  there, that is, a message with the role user whose content is the stripped
  completion text of a reply with status 200, a summarization request having been
  posted since the ChatManager was created. When no summarization request was posted,
  history holds every message of the context list.
\<close>

theorem history_covers_context_but_summary:
  assumes "run_manager enc w calls (ChatManager_init enc personality t1 t2 t3)
             = Some (Inr (), m, w')"
  shows "(\<forall>x\<in>set (take 1 (context_list (context_obj m)) @ drop 2 (context_list (context_obj m))).
            map_option to_dict x \<in> map_option to_dict ` set (history m)) \<and>
         (\<forall>x\<in>set (take 1 (drop 1 (context_list (context_obj m)))).
            map_option to_dict x \<in> map_option to_dict ` set (history m) \<or>
            ((\<exists>q s. Reply q \<in> set (pending w) \<and> status_code q = 200 \<and>
                    body q = Completion s \<and>
                    x = Some (ChatMessage_init enc ''user'' (strip s) (received q))) \<and>
             (\<exists>req\<in>set (drop (length (sent w)) (sent w')). \<exists>t. messages req = MsgStr t)))"
proof -
  from tracked_run_manager [OF assms tracked_init] have t: "tracked enc w m w'" .
  then have c: "covered m"
    by (simp add: tracked_def)
  then have "map (map_option to_dict) (take 1 (context_list (context_obj m)))
        = map (map_option to_dict) (take 1 (history m))"
    by (simp add: covered_def)
  then have "map_option to_dict ` set (take 1 (context_list (context_obj m)))
               = map_option to_dict ` set (take 1 (history m))"
    by (metis set_map)
  moreover have "set (take 1 (history m)) \<subseteq> set (history m)"
    by (rule set_take_subset)
  ultimately have "\<forall>x\<in>set (take 1 (context_list (context_obj m))).
           map_option to_dict x \<in> map_option to_dict ` set (history m)"
    by blast
  with c have first: "\<forall>x\<in>set (take 1 (context_list (context_obj m))
                              @ drop 2 (context_list (context_obj m))).
            map_option to_dict x \<in> map_option to_dict ` set (history m)"
    by (auto simp: covered_def logged_def)
  from t obtain old where old: "sent w' = sent w @ old"
    and slot: "\<forall>x\<in>set (take 1 (drop 1 (context_list (context_obj m)))).
            logged (history m) x \<or>
            (pruning_summary enc (pending w) x \<and>
             (\<exists>req\<in>set old. \<exists>t. messages req = MsgStr t))"
    by (auto simp: tracked_def)
  from old have "drop (length (sent w)) (sent w') = old"
    by simp
  with slot have "\<forall>x\<in>set (take 1 (drop 1 (context_list (context_obj m)))).
            map_option to_dict x \<in> map_option to_dict ` set (history m) \<or>
            ((\<exists>q s. Reply q \<in> set (pending w) \<and> status_code q = 200 \<and>
                    body q = Completion s \<and>
                    x = Some (ChatMessage_init enc ''user'' (strip s) (received q))) \<and>
             (\<exists>req\<in>set (drop (length (sent w)) (sent w')). \<exists>t. messages req = MsgStr t))"
    by (simp add: logged_def pruning_summary_def)
  with first show ?thesis
    by (rule conjI)
qed

theorem history_covers_context_but_summary_witness:
  "run_manager enc0 three_replies [Submit (big 4), Submit (big 5)]
       (ChatManager_init enc0 helpful 1 2 3)
     = Some (Inr (), manager_after_two, three_replies_taken) \<and>
   run_manager enc0 hello_reply [Submit (hi 4)] (ChatManager_init enc0 helpful 1 2 3)
     = Some (Inr (), manager_after_one, \<lparr>pending = [], sent = [turn_request [pinned0, hi 4]]\<rparr>) \<and>
   map_option to_dict ` set (take 1 (context_list (context_obj manager_after_two))
                               @ drop 2 (context_list (context_obj manager_after_two)))
     \<subseteq> map_option to_dict ` set (history manager_after_two) \<and>
   take 1 (drop 1 (context_list (context_obj manager_after_two))) = [Some ok7] \<and>
   (\<exists>q s. Reply q \<in> set (pending three_replies) \<and> status_code q = 200 \<and>
          body q = Completion s \<and>
          Some ok7 = Some (ChatMessage_init enc0 ''user'' (strip s) (received q))) \<and>
   take 1 (drop 1 (context_list (context_obj manager_after_one))) = [Some (hi 4)] \<and>
   map_option to_dict (Some (hi 4)) \<in> map_option to_dict ` set (history manager_after_one)"
proof -
  have two: "run_manager enc0 three_replies [Submit (big 4), Submit (big 5)]
       (ChatManager_init enc0 helpful 1 2 3)
     = Some (Inr (), manager_after_two, three_replies_taken)"
    by code_simp
  have one: "run_manager enc0 hello_reply [Submit (hi 4)] (ChatManager_init enc0 helpful 1 2 3)
     = Some (Inr (), manager_after_one, \<lparr>pending = [], sent = [turn_request [pinned0, hi 4]]\<rparr>)"
    by code_simp
  have slot2: "take 1 (drop 1 (context_list (context_obj manager_after_two))) = [Some ok7]"
    by (simp add: manager_after_two_def one_big_prepared_def)
  have slot1: "take 1 (drop 1 (context_list (context_obj manager_after_one))) = [Some (hi 4)]"
    by (simp add: manager_after_one_def)
  have missing: "map_option to_dict (Some ok7)
                   \<notin> map_option to_dict ` set (history manager_after_two)"
    by code_simp
  have no_summary: "\<not> (\<exists>req\<in>set (drop (length (sent hello_reply))
                                       [turn_request [pinned0, hi 4]]).
                       \<exists>t. messages req = MsgStr t)"
    by (simp add: hello_reply_def turn_request_def)
  note a = history_covers_context_but_summary [OF two]
  note b = history_covers_context_but_summary [OF one]
  from a have a1: "map_option to_dict ` set (take 1 (context_list (context_obj manager_after_two))
                               @ drop 2 (context_list (context_obj manager_after_two)))
     \<subseteq> map_option to_dict ` set (history manager_after_two)"
    by blast
  from a slot2 missing have a2: "\<exists>q s. Reply q \<in> set (pending three_replies) \<and>
          status_code q = 200 \<and> body q = Completion s \<and>
          Some ok7 = Some (ChatMessage_init enc0 ''user'' (strip s) (received q))"
    by auto
  from b slot1 no_summary
  have b1: "map_option to_dict (Some (hi 4)) \<in> map_option to_dict ` set (history manager_after_one)"
    by auto
  from two one a1 slot2 a2 slot1 b1 show ?thesis
    by blast
qed

end
